theory Spec2Isabelle
  imports Main
begin

section \<open>Records, content items and Locations\<close>

text \<open>
  Modelled from the spec: the Record abstraction (the Boromir wrapper of a DOM node, which
  \<open>zippers.js\<close> imports). A Record has a name, a string payload (meaningful when the
  name is the sentinel \<open>#text\<close>), an ordered sequence of child Records, the orthogonal
  attributes \<open>isMarker\<close>, \<open>marker\<close>, \<open>boundary\<close>, \<open>isFragmentedText\<close> and \<open>original\<close>
  that the zipper attaches to wrappers it has just created, and a list of presentational
  style properties. Object identity (what the source compares with \<open>===\<close>) is the field
  \<open>ident\<close>: two values of this type are the same instance exactly when they are equal,
  and every operation that makes a new instance takes its \<open>ident\<close> from an allocation
  counter that is threaded through the model.

  The type parameter \<open>'b\<close> is the opaque boundary value carried by a marker.
\<close>

datatype 'b boromir = Record
  (ident: nat)
  (name: string)
  (text': string)
  (children: "'b boromir list")
  (isMarkerProp: bool)
  (marker: "string option")
  (boundary: "'b option")
  (isFragmentedTextProp: bool)
  (original: "'b boromir option")
  (style: "(string \<times> string) list")

text \<open>
  A DOM node as far as its structure goes: node name, character data, child nodes. Two
  Records are structurally equal when \<open>shape\<close> maps them to the same node.
\<close>

datatype node = Node (nodeName: string) (nodeData: string) (childNodes: "node list")

fun shape :: "'b boromir \<Rightarrow> node" where
  "shape (Record i n t cs m k b f orig st) = Node n t (map shape cs)"

text \<open>
  The members of \<open>lefts\<close> and \<open>rights\<close> are Records, or raw strings when the Location is
  inside the character data of a Text record.
\<close>

datatype 'b content = Str string | Rec "'b boromir"

datatype 'b location = Location
  (lefts: "'b content list")
  (rights: "'b content list")
  (frames: "'b location list")

text \<open>
  \<open>TypeError\<close> is the JavaScript exception raised on a property access or a method call on
  \<open>undefined\<close> or on a value without that method; \<open>TextOffsetOutOfBounds\<close> is the string
  thrown by \<open>fragmentedOffset\<close>. \<open>Unrepresentable\<close> marks the inputs on which the source
  does not raise but leaves the data model above: a string standing where a sequence of
  siblings is expected, or strings and Records handed to the wrong kind of Record.
\<close>

datatype error = TypeError | TextOffsetOutOfBounds | Unrepresentable

type_synonym heap = nat

subsection \<open>Array slicing\<close>

text \<open>
  \<open>Array.prototype.slice\<close>: a negative index counts from the end, and both indices are
  clamped to the array. \<open>sliceFrom xs s\<close> is \<open>xs.slice(s)\<close>.
\<close>

definition relativeIndex :: "nat \<Rightarrow> int \<Rightarrow> nat" where
  "relativeIndex len i = (if i < 0 then nat (max (int len + i) 0) else min (nat i) len)"

definition slice :: "'a list \<Rightarrow> int \<Rightarrow> int \<Rightarrow> 'a list" where
  "slice xs s e =
     (let k = relativeIndex (length xs) s; final = relativeIndex (length xs) e
      in take (final - k) (drop k xs))"

definition sliceFrom :: "'a list \<Rightarrow> int \<Rightarrow> 'a list" where
  "sliceFrom xs s = drop (relativeIndex (length xs) s) xs"

text \<open>
  Modelled from the spec: \<open>Arrays.last\<close>, the last element of an array, \<open>undefined\<close> for
  the empty array (\<open>peek\<close> is undefined at the session root).
\<close>

definition arrayLast :: "'a list \<Rightarrow> 'a option" where
  "arrayLast xs = (if xs = [] then None else Some (last xs))"

subsection \<open>Record predicates and content\<close>

definition isTextRecord :: "'b boromir \<Rightarrow> bool" where
  "isTextRecord record = (''#text'' = name record)"

definition isMarker :: "'b boromir \<Rightarrow> bool" where
  "isMarker record = (True = isMarkerProp record)"

definition isFragmentedText :: "'b boromir \<Rightarrow> bool" where
  "isFragmentedText record = (''Q'' = name record)"

text \<open>
  Modelled from the spec: the setters \<open>text(newString)\<close> and \<open>children(newList)\<close> of the
  Record interface return a new Record. The new instance keeps the name, the other
  payload and the style; the ad hoc attributes are not carried over (the source's FIXME notes: they
  "won't be preserved on cloning").
\<close>

definition setText :: "'b boromir \<Rightarrow> string \<Rightarrow> heap \<Rightarrow> 'b boromir \<times> heap" where
  "setText record s h =
     (Record h (name record) s (children record) False None None False None (style record),
      Suc h)"

definition setChildren :: "'b boromir \<Rightarrow> 'b boromir list \<Rightarrow> heap \<Rightarrow> 'b boromir \<times> heap" where
  "setChildren record cs h =
     (Record h (name record) (text' record) cs False None None False None (style record),
      Suc h)"

text \<open>
  Modelled from the spec: \<open>Boromir(node)\<close> wraps a DOM node, and each node of the tree
  yields one new Record instance.
\<close>

fun Boromir :: "node \<Rightarrow> heap \<Rightarrow> 'b boromir \<times> heap"
  and BoromirAll :: "node list \<Rightarrow> heap \<Rightarrow> 'b boromir list \<times> heap" where
  "Boromir (Node n d cs) h =
     (case BoromirAll cs (Suc h) of (rs, h') \<Rightarrow>
        (Record h n d rs False None None False None [], h'))"
| "BoromirAll [] h = ([], h)"
| "BoromirAll (c # cs) h =
     (case Boromir c h of (r, h1) \<Rightarrow>
        (case BoromirAll cs h1 of (rs, h2) \<Rightarrow> (r # rs, h2)))"

text \<open>The one-argument form of \<open>contents\<close>: the text of a Text record, else the children.\<close>

datatype 'b payload = Chars string | Nodes "'b boromir list"

definition contents :: "'b boromir \<Rightarrow> 'b payload" where
  "contents record =
     (if isTextRecord record then Chars (text' record) else Nodes (children record))"

fun strings :: "'b content list \<Rightarrow> string list option" where
  "strings [] = Some []"
| "strings (Str s # xs) = map_option ((#) s) (strings xs)"
| "strings (Rec r # xs) = None"

fun records :: "'b content list \<Rightarrow> 'b boromir list option" where
  "records [] = Some []"
| "records (Rec r # xs) = map_option ((#) r) (records xs)"
| "records (Str s # xs) = None"

text \<open>
  The two-argument form of \<open>contents\<close>. A Text record takes \<open>content.join('')\<close>, which is
  a text of the model only when every item is a string; any other Record takes the items
  as children, which are Records only when every item is one.
\<close>

definition setContents ::
  "'b boromir \<Rightarrow> 'b content list \<Rightarrow> heap \<Rightarrow> error + ('b boromir \<times> heap)" where
  "setContents record content h =
     (if isTextRecord record then
        (case strings content of
           None \<Rightarrow> Inl Unrepresentable
         | Some ss \<Rightarrow> Inr (setText record (concat ss) h))
      else
        (case records content of
           None \<Rightarrow> Inl Unrepresentable
         | Some rs \<Rightarrow> Inr (setChildren record rs h)))"

subsection \<open>Navigation\<close>

definition peek :: "'b location \<Rightarrow> 'b location option" where
  "peek loc = arrayLast (frames loc)"

definition before :: "'b location \<Rightarrow> 'b content option" where
  "before loc = arrayLast (lefts loc)"

definition after :: "'b location \<Rightarrow> 'b content option" where
  "after loc = (case rights loc of [] \<Rightarrow> None | x # _ \<Rightarrow> Some x)"

text \<open>
  The stride is \<open>None\<close> when the argument is missing or not a number, and then counts as 1.
\<close>

definition prev :: "'b location \<Rightarrow> int option \<Rightarrow> 'b location" where
  "prev loc stride =
     (let stride = (case stride of Some n \<Rightarrow> n | None \<Rightarrow> 1)
      in Location
           (slice (lefts loc) 0 (- stride))
           (sliceFrom (lefts loc) (- stride) @ rights loc)
           (frames loc))"

definition next' :: "'b location \<Rightarrow> int option \<Rightarrow> 'b location" where
  "next' loc stride =
     (let stride = (case stride of Some n \<Rightarrow> n | None \<Rightarrow> 1)
      in Location
           (lefts loc @ slice (rights loc) 0 stride)
           (sliceFrom (rights loc) stride)
           (frames loc))"

definition down :: "'b location \<Rightarrow> error + 'b location" where
  "down loc =
     (case after loc of
        None \<Rightarrow> Inl TypeError
      | Some (Str s) \<Rightarrow> Inl TypeError
      | Some (Rec r) \<Rightarrow>
          (case contents r of
             Chars s \<Rightarrow> Inl Unrepresentable
           | Nodes cs \<Rightarrow> Inr (Location [] (map Rec cs) (frames loc @ [loc]))))"

definition up :: "'b location \<Rightarrow> heap \<Rightarrow> error + ('b location \<times> heap)" where
  "up loc h =
     (let content = lefts loc @ rights loc
      in case arrayLast (frames loc) of
           None \<Rightarrow> Inl TypeError
         | Some frame \<Rightarrow>
             (case after frame of
                None \<Rightarrow> Inl TypeError
              | Some (Str s) \<Rightarrow> Inl TypeError
              | Some (Rec r) \<Rightarrow>
                  (case setContents r content h of
                     Inl e \<Rightarrow> Inl e
                   | Inr (first, h') \<Rightarrow>
                       Inr (Location
                              (lefts frame)
                              (Rec first # sliceFrom (rights frame) 1)
                              (slice (frames loc) 0 (- 1)), h'))))"

text \<open>
  \<open>root\<close> is \<open>loc.frames.reduce(up, loc)\<close>: one call of \<open>up\<close> for each frame of the
  Location it starts from.
\<close>

fun reduceUp :: "nat \<Rightarrow> 'b location \<Rightarrow> heap \<Rightarrow> error + ('b location \<times> heap)" where
  "reduceUp 0 loc h = Inr (loc, h)"
| "reduceUp (Suc n) loc h =
     (case up loc h of Inl e \<Rightarrow> Inl e | Inr (loc', h') \<Rightarrow> reduceUp n loc' h')"

definition root :: "'b location \<Rightarrow> heap \<Rightarrow> error + ('b location \<times> heap)" where
  "root loc h = reduceUp (length (frames loc)) loc h"

definition create :: "node \<Rightarrow> heap \<Rightarrow> 'b location \<times> heap" where
  "create rootNode h = (case Boromir rootNode h of (r, h') \<Rightarrow> (Location [] [Rec r] [], h'))"

definition isTextLocation :: "'b location \<Rightarrow> bool" where
  "isTextLocation loc = (case after loc of Some (Str s) \<Rightarrow> True | _ \<Rightarrow> False)"

definition jump :: "'b location \<Rightarrow> nat \<Rightarrow> 'b location" where
  "jump loc steps = (if 0 = steps then loc else next' loc (Some (int steps)))"

definition isRoot :: "'b location \<Rightarrow> bool" where
  "isRoot loc = (0 = length (frames loc))"

definition isAtStart :: "'b location \<Rightarrow> bool" where
  "isAtStart loc = (0 = length (lefts loc))"

definition isAtEnd :: "'b location \<Rightarrow> bool" where
  "isAtEnd loc = (0 = length (rights loc))"

subsection \<open>Editing primitives\<close>

text \<open>
  The third argument of \<open>splice\<close>: a single Record, an array of items, or nothing
  (\<open>undefined\<close>, which counts as the empty array).
\<close>

datatype 'b replacement = One "'b boromir" | Many "'b content list" | Nothing

definition splice' :: "'b location \<Rightarrow> int \<Rightarrow> 'b replacement \<Rightarrow> 'b location" where
  "splice' loc num replacement =
     (let replacements =
            (case replacement of One r \<Rightarrow> [Rec r] | Many xs \<Rightarrow> xs | Nothing \<Rightarrow> [])
      in Location
           (lefts loc)
           (replacements @ sliceFrom (rights loc) num)
           (frames loc))"

definition insert' :: "'b location \<Rightarrow> 'b replacement \<Rightarrow> 'b location" where
  "insert' loc items = splice' loc 0 items"

definition replace :: "'b location \<Rightarrow> 'b replacement \<Rightarrow> 'b location" where
  "replace loc item = splice' loc 1 item"

definition remove :: "'b location \<Rightarrow> 'b location" where
  "remove loc = splice' loc 1 Nothing"

subsection \<open>Creating Records\<close>

text \<open>
  \<open>document.createTextNode\<close> and \<open>document.createElement\<close>: an HTML element reports its
  name in upper case, which is why \<open>isFragmentedText\<close> compares with \<open>Q\<close>.
\<close>

definition toUpperCase :: "char \<Rightarrow> char" where
  "toUpperCase c =
     (let k = (of_char c :: nat) in if 97 \<le> k \<and> k \<le> 122 then char_of (k - 32) else c)"

definition createTextNode :: "string \<Rightarrow> node" where
  "createTextNode d = Node ''#text'' d []"

definition createElement :: "string \<Rightarrow> node" where
  "createElement tag = Node (map toUpperCase tag) [] []"

definition createRecord ::
  "string \<Rightarrow> 'b content list option \<Rightarrow> heap \<Rightarrow> error + ('b boromir \<times> heap)" where
  "createRecord type content h =
     (let node = (if ''#text'' = type then createTextNode [] else createElement type)
      in case content of
           None \<Rightarrow> Inr (Boromir node h)
         | Some c \<Rightarrow> (case Boromir node h of (r, h') \<Rightarrow> setContents r c h'))"

text \<open>
  Modelled from the spec: a shallow structural clone of a Record (the source clones the
  DOM node without its children and wraps the clone).
\<close>

definition cloneShallow :: "'b boromir \<Rightarrow> node" where
  "cloneShallow record = Node (name record) (text' record) []"

definition clone :: "'b boromir \<Rightarrow> heap \<Rightarrow> 'b boromir \<times> heap" where
  "clone record h = Boromir (cloneShallow record) h"

subsection \<open>Fragmented text\<close>

definition fragmentsLength :: "'b boromir list \<Rightarrow> nat" where
  "fragmentsLength fragments = foldl (\<lambda>sum record. sum + length (text' record)) 0 fragments"

definition defragmentText :: "'b boromir \<Rightarrow> heap \<Rightarrow> error + ('b boromir \<times> heap)" where
  "defragmentText record h =
     (let text = concat (foldl (\<lambda>strings string. strings @ [text' string]) []
                          (filter isTextRecord (children record)))
      in case original record of
           None \<Rightarrow> createRecord ''#text'' (Some [Str text]) h
         | Some orig \<Rightarrow>
             if text' orig = text then Inr (orig, h)
             else createRecord ''#text'' (Some [Str text]) h)"

definition normalizeOffset :: "'b boromir \<Rightarrow> nat \<Rightarrow> nat" where
  "normalizeOffset record offset =
     offset + length (filter isMarker (slice (children record) 0 (int offset)))"

text \<open>
  The offsets of a Path are non-negative integers. The loop reads \<open>text()\<close> of every
  fragment that is not a marker; the children of a fragmented text are Text records and
  markers.
\<close>

function fragmentedOffsetLoop :: "'b boromir list \<Rightarrow> nat \<Rightarrow> nat \<Rightarrow> error + nat list" where
  "fragmentedOffsetLoop fragments index remainder =
     (if index < length fragments then
        (let fragment = fragments ! index
         in if isMarker fragment then fragmentedOffsetLoop fragments (index + 1) remainder
            else
              (let overflow = int remainder - int (length (text' fragment))
               in if 0 = overflow then Inr [index + 1]
                  else if overflow < 0 then Inr [index, remainder]
                  else fragmentedOffsetLoop fragments (index + 1) (nat overflow)))
      else Inl TextOffsetOutOfBounds)"
  by pat_completeness auto
termination
  by (relation "measure (\<lambda>(fragments, index, remainder). length fragments - index)") auto

declare fragmentedOffsetLoop.simps [simp del]

definition fragmentedOffset :: "'b boromir \<Rightarrow> nat \<Rightarrow> error + nat list" where
  "fragmentedOffset record offset =
     (if 0 = offset then Inr [0] else fragmentedOffsetLoop (children record) 0 offset)"

definition splitText :: "string \<Rightarrow> nat \<Rightarrow> string \<times> string" where
  "splitText text offset = (take offset text, drop offset text)"

subsection \<open>Tree predicates\<close>

text \<open>
  \<open>Html.isVoidNode\<close> belongs to another module; it is taken as a parameter, a
  predicate on the Record whose DOM node it inspects.
\<close>

definition isVoid :: "('b boromir \<Rightarrow> bool) \<Rightarrow> 'b location \<Rightarrow> error + bool" where
  "isVoid isVoidNode loc =
     (case after loc of
        None \<Rightarrow> Inl TypeError
      | Some (Str s) \<Rightarrow> Inl TypeError
      | Some (Rec record) \<Rightarrow>
          Inr (''#text'' = name record \<or> isMarker record \<or> isVoidNode record))"

subsection \<open>Splitting\<close>

text \<open>
  \<open>until\<close> is \<open>None\<close> when the caller passes no predicate, and then counts as the
  predicate that is always false. \<open>isRoot(peek(loc))\<close> reads \<open>frames\<close> of \<open>undefined\<close>
  when the Location has no frame.
\<close>

function split ::
  "'b location \<Rightarrow> ('b location \<Rightarrow> bool) option \<Rightarrow> heap \<Rightarrow> error + ('b location \<times> heap)" where
  "split loc until h =
     (let untilFn = (case until of Some p \<Rightarrow> p | None \<Rightarrow> (\<lambda>l. False))
      in case peek loc of
           None \<Rightarrow> Inl TypeError
         | Some frame \<Rightarrow>
             if isRoot frame \<or> untilFn loc then Inr (loc, h)
             else
               (case up loc h of
                  Inl e \<Rightarrow> Inl e
                | Inr (upper, h1) \<Rightarrow>
                    (case (if isTextLocation loc then
                             (case createRecord ''#text'' None h1 of
                                Inl e \<Rightarrow> Inl e
                              | Inr (left, h2) \<Rightarrow>
                                  (case createRecord ''#text'' None h2 of
                                     Inl e \<Rightarrow> Inl e
                                   | Inr (right, h3) \<Rightarrow> Inr (left, right, h3)))
                           else
                             (case after upper of
                                None \<Rightarrow> Inl TypeError
                              | Some (Str s) \<Rightarrow> Inl TypeError
                              | Some (Rec ancestor) \<Rightarrow>
                                  (case clone ancestor h1 of (left, h2) \<Rightarrow>
                                     (case clone ancestor h2 of (right, h3) \<Rightarrow>
                                        Inr (left, right, h3))))) of
                       Inl e \<Rightarrow> Inl e
                     | Inr (left, right, h3) \<Rightarrow>
                         (case setContents left (lefts loc) h3 of
                            Inl e \<Rightarrow> Inl e
                          | Inr (left', h4) \<Rightarrow>
                              (case setContents right (rights loc) h4 of
                                 Inl e \<Rightarrow> Inl e
                               | Inr (right', h5) \<Rightarrow>
                                   split
                                     (Location
                                        (lefts upper @ [Rec left'])
                                        (Rec right' # sliceFrom (rights upper) 1)
                                        (frames upper))
                                     until h5)))))"
  by pat_completeness auto
termination
proof (relation "measure (\<lambda>(loc, until, h). length (frames loc))")
  show "wf (measure (\<lambda>(loc, until, h). length (frames loc)))" by simp
next
  fix loc :: "'b location" and until :: "('b location \<Rightarrow> bool) option"
    and h :: heap and frame b upper h1 ls rs and h5 :: heap
  assume p: "peek loc = Some frame" and u: "up loc h = Inr b" and x: "(upper, h1) = b"
  from p have ne: "frames loc \<noteq> []"
    by (auto simp: peek_def arrayLast_def split: if_splits)
  from u x have "frames upper = slice (frames loc) 0 (- 1)"
    by (auto simp: up_def Let_def split: option.splits content.splits sum.splits)
  with ne have "length (frames upper) < length (frames loc)"
    by (cases "frames loc") (simp_all add: slice_def relativeIndex_def)
  then show "((Location ls rs (frames upper), until, h5), loc, until, h)
               \<in> measure (\<lambda>(loc, until, h). length (frames loc))"
    by simp
qed

declare split.simps [simp del]

subsection \<open>Walking the tree\<close>

fun textRecords :: "'b content list \<Rightarrow> error + 'b boromir list" where
  "textRecords [] = Inr []"
| "textRecords (Str s # xs) = Inl TypeError"
| "textRecords (Rec r # xs) =
     (case textRecords xs of
        Inl e \<Rightarrow> Inl e
      | Inr rs \<Rightarrow> Inr (if isTextRecord r then r # rs else rs))"

text \<open>
  The body of the \<open>while (true)\<close> loop of \<open>walkPostOrder\<close>. \<open>mutate\<close> receives the Record
  at the cursor and the trail; it may keep a state of its own (\<open>update\<close> collects paths)
  and allocate Records. A walk that never leaves the loop has the value \<open>None\<close>.
\<close>

partial_function (option) walkPostOrderLoop ::
  "('b boromir \<Rightarrow> bool) \<Rightarrow>
   ('b boromir \<Rightarrow> nat list \<Rightarrow> 's \<Rightarrow> heap \<Rightarrow> error + ('b boromir list \<times> 's \<times> heap)) \<Rightarrow>
   'b location \<Rightarrow> nat list \<Rightarrow> 's \<Rightarrow> heap \<Rightarrow> (error + ('b location \<times> 's \<times> heap)) option" where
  "walkPostOrderLoop isVoidNode mutate loc trail s h =
     (if isAtEnd loc then
        (case up loc h of
           Inl e \<Rightarrow> Some (Inl e)
         | Inr (loc1, h1) \<Rightarrow>
             if isRoot loc1 then Some (Inr (loc1, s, h1))
             else
               (let trail1 = slice trail 0 (- 1)
                in case after loc1 of
                     Some (Rec record) \<Rightarrow>
                       (case mutate record trail1 s h1 of
                          Inl e \<Rightarrow> Some (Inl e)
                        | Inr (replacements, s2, h2) \<Rightarrow>
                            walkPostOrderLoop isVoidNode mutate
                              (jump (replace loc1 (Many (map Rec replacements)))
                                 (length replacements))
                              trail1 s2 h2)
                   | _ \<Rightarrow> Some (Inl TypeError)))
      else
        (case isVoid isVoidNode loc of
           Inl e \<Rightarrow> Some (Inl e)
         | Inr void \<Rightarrow>
             if void then
             (case up loc h of
                Inl e \<Rightarrow> Some (Inl e)
              | Inr (upper, h1) \<Rightarrow>
                  (case after upper of
                     Some (Rec parent) \<Rightarrow>
                       (case (if isFragmentedText parent
                              then map_sum id fragmentsLength (textRecords (lefts loc))
                              else Inr (length (lefts loc))) of
                          Inl e \<Rightarrow> Some (Inl e)
                        | Inr offset \<Rightarrow>
                            (case after loc of
                               Some (Rec record) \<Rightarrow>
                                 (case mutate record (trail @ [offset]) s h1 of
                                    Inl e \<Rightarrow> Some (Inl e)
                                  | Inr (replacements, s2, h2) \<Rightarrow>
                                      walkPostOrderLoop isVoidNode mutate
                                        (jump (replace loc (Many (map Rec replacements)))
                                           (length replacements))
                                        trail s2 h2)
                             | _ \<Rightarrow> Some (Inl TypeError)))
                   | _ \<Rightarrow> Some (Inl TypeError)))
             else
             (let trail1 = (if \<not> isRoot loc then trail @ [length (lefts loc)] else trail)
              in case down loc of
                   Inl e \<Rightarrow> Some (Inl e)
                 | Inr loc1 \<Rightarrow> walkPostOrderLoop isVoidNode mutate loc1 trail1 s h)))"

definition walkPostOrder ::
  "('b boromir \<Rightarrow> bool) \<Rightarrow>
   ('b boromir \<Rightarrow> nat list \<Rightarrow> 's \<Rightarrow> heap \<Rightarrow> error + ('b boromir list \<times> 's \<times> heap)) \<Rightarrow>
   'b location \<Rightarrow> 's \<Rightarrow> heap \<Rightarrow> (error + ('b location \<times> 's \<times> heap)) option" where
  "walkPostOrder isVoidNode mutate loc s h =
     (case root loc h of
        Inl e \<Rightarrow> Some (Inl e)
      | Inr (loc0, h0) \<Rightarrow> walkPostOrderLoop isVoidNode mutate loc0 [] s h0)"

text \<open>
  The inner \<open>do ... while (isAtEnd(loc))\<close> loop of \<open>walkPreOrderWhile\<close>. It either makes
  the whole walk return (at the root) or hands a Location back to the outer loop.
\<close>

datatype 'b ascent = Return "'b location" heap | Resume "'b location" heap

function ascend :: "'b location \<Rightarrow> heap \<Rightarrow> error + 'b ascent" where
  "ascend loc h =
     (if isRoot loc then Inr (Return loc h)
      else
        (case up loc h of
           Inl e \<Rightarrow> Inl e
         | Inr (loc1, h1) \<Rightarrow> if isAtEnd loc1 then ascend loc1 h1 else Inr (Resume loc1 h1)))"
  by pat_completeness auto
termination
proof (relation "measure (\<lambda>(loc, h). length (frames loc))")
  show "wf (measure (\<lambda>(loc, h). length (frames loc)))" by simp
next
  fix loc :: "'b location" and h x2 loc1 h1
  assume r: "\<not> isRoot loc" and u: "up loc h = Inr x2" and p: "(loc1, h1) = x2"
  from u p have "frames loc1 = slice (frames loc) 0 (- 1)"
    by (auto simp: up_def Let_def split: option.splits content.splits sum.splits)
  with r show "((loc1, h1), loc, h) \<in> measure (\<lambda>(loc, h). length (frames loc))"
    by (cases "frames loc") (simp_all add: slice_def relativeIndex_def isRoot_def)
qed

declare ascend.simps [simp del]

partial_function (option) walkPreOrderLoop ::
  "('b boromir \<Rightarrow> bool) \<Rightarrow> ('b location \<Rightarrow> bool) \<Rightarrow> 'b location \<Rightarrow> heap \<Rightarrow>
   (error + ('b location \<times> heap)) option" where
  "walkPreOrderLoop isVoidNode pred loc h =
     (if pred loc then
        (if isAtEnd loc then
           (case ascend loc h of
              Inl e \<Rightarrow> Some (Inl e)
            | Inr (Return loc1 h1) \<Rightarrow> Some (Inr (loc1, h1))
            | Inr (Resume loc1 h1) \<Rightarrow> walkPreOrderLoop isVoidNode pred (next' loc1 None) h1)
         else
           (case isVoid isVoidNode loc of
              Inl e \<Rightarrow> Some (Inl e)
            | Inr void \<Rightarrow>
                if void then walkPreOrderLoop isVoidNode pred (next' loc None) h
                else
                (case down loc of
                   Inl e \<Rightarrow> Some (Inl e)
                 | Inr loc1 \<Rightarrow> walkPreOrderLoop isVoidNode pred loc1 h)))
      else Some (Inr (loc, h)))"

definition walkPreOrderWhile ::
  "('b boromir \<Rightarrow> bool) \<Rightarrow> 'b location \<Rightarrow> ('b location \<Rightarrow> bool) option \<Rightarrow> heap \<Rightarrow>
   (error + ('b location \<times> heap)) option" where
  "walkPreOrderWhile isVoidNode loc pred h =
     (let predFn = (case pred of Some p \<Rightarrow> p | None \<Rightarrow> (\<lambda>l. True))
      in case root loc h of
           Inl e \<Rightarrow> Some (Inl e)
         | Inr (loc0, h0) \<Rightarrow> walkPreOrderLoop isVoidNode predFn loc0 h0)"

text \<open>
  The predicate of \<open>gotoMarker\<close>: \<open>!(record && isMarker(record) && record === marker)\<close>.
  A string at the cursor has no \<open>isMarker\<close> property. The result \<open>None\<close> inside \<open>Inr\<close> is
  the \<open>null\<close> Location.
\<close>

definition notAtMarker :: "'b boromir \<Rightarrow> 'b location \<Rightarrow> bool" where
  "notAtMarker marker' loc =
     (\<not> (case after loc of
            None \<Rightarrow> False
          | Some (Str s) \<Rightarrow> False
          | Some (Rec record) \<Rightarrow> isMarker record \<and> record = marker'))"

definition gotoMarker ::
  "('b boromir \<Rightarrow> bool) \<Rightarrow> 'b location \<Rightarrow> 'b boromir \<Rightarrow> heap \<Rightarrow>
   (error + ('b location option \<times> heap)) option" where
  "gotoMarker isVoidNode tree marker' h =
     (case root tree h of
        Inl e \<Rightarrow> Some (Inl e)
      | Inr (rooted, h0) \<Rightarrow>
          (case walkPreOrderWhile isVoidNode rooted (Some (notAtMarker marker')) h0 of
             None \<Rightarrow> None
           | Some (Inl e) \<Rightarrow> Some (Inl e)
           | Some (Inr (loc, h1)) \<Rightarrow> Some (Inr (if isRoot loc then None else Some loc, h1))))"

subsection \<open>Path resolution\<close>

definition locationInText :: "'b location \<Rightarrow> nat \<Rightarrow> error + 'b location" where
  "locationInText loc offset =
     (case after loc of
        None \<Rightarrow> Inl TypeError
      | Some (Str s) \<Rightarrow> Inl TypeError
      | Some (Rec r) \<Rightarrow>
          (case contents r of
             Nodes cs \<Rightarrow> Inl TypeError
           | Chars t \<Rightarrow>
               (case splitText t offset of (text0, text1) \<Rightarrow>
                  Inr (Location [Str text0] [Str text1] (frames loc @ [loc])))))"

definition locationInElement :: "'b location \<Rightarrow> nat \<Rightarrow> error + 'b location" where
  "locationInElement loc offset =
     (case down loc of
        Inl e \<Rightarrow> Inl e
      | Inr inside \<Rightarrow>
          (case after loc of
             Some (Rec r) \<Rightarrow> Inr (next' inside (Some (int (normalizeOffset r offset))))
           | _ \<Rightarrow> Inl TypeError))"

definition locationInFragment ::
  "'b location \<Rightarrow> nat \<Rightarrow> heap \<Rightarrow> error + ('b location \<times> heap)" where
  "locationInFragment loc offset h =
     (case after loc of
        None \<Rightarrow> Inl TypeError
      | Some (Str s) \<Rightarrow> Inl TypeError
      | Some (Rec record) \<Rightarrow>
          (case fragmentedOffset record offset of
             Inl e \<Rightarrow> Inl e
           | Inr offsets \<Rightarrow>
               (case down loc of
                  Inl e \<Rightarrow> Inl e
                | Inr inside \<Rightarrow>
                    (let atText = next' inside (Some (int (offsets ! 0)))
                     in if 1 = length offsets then Inr (atText, h)
                        else
                          (case after atText of
                             None \<Rightarrow> Inl TypeError
                           | Some (Str s) \<Rightarrow> Inl TypeError
                           | Some (Rec fragment) \<Rightarrow>
                               (case contents fragment of
                                  Nodes cs \<Rightarrow> Inl TypeError
                                | Chars t \<Rightarrow>
                                    (case splitText t (offsets ! 1) of (text0, text1) \<Rightarrow>
                                       (case createRecord ''#text'' (Some [Str text0]) h of
                                          Inl e \<Rightarrow> Inl e
                                        | Inr (r0, h1) \<Rightarrow>
                                            (case createRecord ''#text'' (Some [Str text1]) h1 of
                                               Inl e \<Rightarrow> Inl e
                                             | Inr (r1, h2) \<Rightarrow>
                                                 Inr (next' (splice' atText 1
                                                              (Many [Rec r0, Rec r1])) None,
                                                      h2))))))))))"

function skipMarkers :: "'b location \<Rightarrow> error + 'b location" where
  "skipMarkers loc =
     (case after loc of
        None \<Rightarrow> Inl TypeError
      | Some (Str s) \<Rightarrow> Inr loc
      | Some (Rec r) \<Rightarrow> if isMarker r then skipMarkers (next' loc None) else Inr loc)"
  by pat_completeness auto
termination
  by (relation "measure (\<lambda>loc. length (rights loc))")
    (auto simp: after_def next'_def sliceFrom_def relativeIndex_def split: list.splits)

declare skipMarkers.simps [simp del]

text \<open>
  \<open>traverse\<close> pops the offsets of the path from first to last (it reverses a copy and
  pops from its end).
\<close>

fun traverse :: "'b location \<Rightarrow> nat list \<Rightarrow> heap \<Rightarrow> error + ('b location \<times> heap)" where
  "traverse loc [] h = Inr (loc, h)"
| "traverse loc (offset # trail) h =
     (case skipMarkers loc of
        Inl e \<Rightarrow> Inl e
      | Inr loc1 \<Rightarrow>
          (case after loc1 of
             None \<Rightarrow> Inl TypeError
           | Some (Str s) \<Rightarrow> Inl TypeError
           | Some (Rec r) \<Rightarrow>
               if isTextRecord r then map_sum id (\<lambda>l. (l, h)) (locationInText loc1 offset)
               else
                 (case (if isFragmentedText r then locationInFragment loc1 offset h
                        else map_sum id (\<lambda>l. (l, h)) (locationInElement loc1 offset)) of
                    Inl e \<Rightarrow> Inl e
                  | Inr (loc2, h2) \<Rightarrow> traverse loc2 trail h2)))"

function clipCommonRootLoop :: "nat list \<Rightarrow> nat list \<Rightarrow> nat \<Rightarrow> nat list" where
  "clipCommonRootLoop rootPath path i =
     (if i < length rootPath then
        (if (if i < length path then Some (path ! i) else None) \<noteq> Some (rootPath ! i) then []
         else clipCommonRootLoop rootPath path (i + 1))
      else sliceFrom path (int i))"
  by pat_completeness auto
termination
  by (relation "measure (\<lambda>(rootPath, path, i). length rootPath - i)") auto

declare clipCommonRootLoop.simps [simp del]

definition clipCommonRoot :: "nat list \<Rightarrow> nat list \<Rightarrow> nat list" where
  "clipCommonRoot rootPath path = clipCommonRootLoop rootPath path 0"

subsection \<open>Markers\<close>

text \<open>
  \<open>FragmentedText\<close> wraps the Text record around an in-text Location in a new \<open>q\<close>
  element, tags the wrapper and records the Text record as its \<open>original\<close>.
\<close>

definition tagFragmentedText :: "'b boromir \<Rightarrow> 'b boromir option \<Rightarrow> 'b boromir" where
  "tagFragmentedText wrapper orig =
     Record (ident wrapper) (name wrapper) (text' wrapper) (children wrapper)
       (isMarkerProp wrapper) (marker wrapper) (boundary wrapper) True orig (style wrapper)"

definition FragmentedText :: "'b location \<Rightarrow> heap \<Rightarrow> error + ('b location \<times> heap)" where
  "FragmentedText loc h =
     (case up loc h of
        Inl e \<Rightarrow> Inl e
      | Inr (atText, h1) \<Rightarrow>
          (case Boromir (createElement ''q'') h1 of (w, h2) \<Rightarrow>
             (let wrapper = tagFragmentedText w
                              (case after atText of Some (Rec r) \<Rightarrow> Some r | _ \<Rightarrow> None)
              in case createRecord ''#text'' (Some (lefts loc)) h2 of
                   Inl e \<Rightarrow> Inl e
                 | Inr (l, h3) \<Rightarrow>
                     (case createRecord ''#text'' (Some (rights loc)) h3 of
                        Inl e \<Rightarrow> Inl e
                      | Inr (r, h4) \<Rightarrow>
                          (case down (replace atText (One wrapper)) of
                             Inl e \<Rightarrow> Inl e
                           | Inr inside \<Rightarrow>
                               Inr (Location [Rec l] [Rec r] (frames inside), h4))))))"

function showNat :: "nat \<Rightarrow> string" where
  "showNat n =
     (if n < 10 then [char_of (48 + n)] else showNat (n div 10) @ [char_of (48 + n mod 10)])"
  by pat_completeness auto
termination
  by (relation "measure id") auto

declare showNat.simps [simp del]

text \<open>
  \<open>Marker\<close> increments the module-wide \<open>markerCount\<close>, creates a \<open>code\<close> element whose
  content is the new count, wraps it and tags the wrapper.
\<close>

definition tagMarker :: "'b boromir \<Rightarrow> 'b \<Rightarrow> string \<Rightarrow> 'b boromir" where
  "tagMarker record b markerName =
     Record (ident record) (name record) (text' record) (children record)
       True (Some markerName) (Some b) (isFragmentedTextProp record) (original record)
       (style record)"

definition Marker :: "'b \<Rightarrow> string \<Rightarrow> nat \<Rightarrow> heap \<Rightarrow> 'b boromir \<times> nat \<times> heap" where
  "Marker b markerName markerCount h =
     (let count = markerCount + 1;
          node = Node (map toUpperCase ''code'') [] [createTextNode (showNat count)]
      in case Boromir node h of (record, h') \<Rightarrow> (tagMarker record b markerName, count, h'))"

definition mark :: "'b location \<Rightarrow> 'b boromir \<Rightarrow> heap \<Rightarrow> error + ('b location \<times> heap)" where
  "mark loc m h =
     (case (if isTextLocation loc then FragmentedText loc h else Inr (loc, h)) of
        Inl e \<Rightarrow> Inl e
      | Inr (loc', h') \<Rightarrow> Inr (insert' loc' (One m), h'))"

definition insertMarker ::
  "'b boromir \<Rightarrow> 'b location \<Rightarrow> nat list \<Rightarrow> heap \<Rightarrow> error + ('b location \<times> heap)" where
  "insertMarker m loc path h =
     (case traverse loc path h of
        Inl e \<Rightarrow> Inl e
      | Inr (target, h1) \<Rightarrow>
          (case mark target m h1 of
             Inl e \<Rightarrow> Inl e
           | Inr (marked, h2) \<Rightarrow> root marked h2))"

subsection \<open>The markup driver\<close>

text \<open>
  \<open>Paths.fromBoundary\<close> and \<open>Boundaries.fromFrontOfNode\<close> belong to other modules.
  They are taken as two parameters: \<open>rootPathOf element\<close> is the path of the
  front of the element at the cursor, and \<open>pathOf element b\<close> the path of the boundary
  \<open>b\<close>, both from the body of the element's document. The state threaded through the
  driver is the module-wide \<open>markerCount\<close> and the allocation counter.
\<close>

definition markTree ::
  "('b boromir \<Rightarrow> nat list) \<Rightarrow> ('b boromir \<Rightarrow> 'b \<Rightarrow> nat list) \<Rightarrow>
   'b location \<Rightarrow> 'b \<Rightarrow> string \<Rightarrow> nat \<Rightarrow> heap \<Rightarrow>
   error + (('b location \<times> 'b boromir option) \<times> nat \<times> heap)" where
  "markTree rootPathOf pathOf tree b markerName markerCount h =
     (case after tree of
        None \<Rightarrow> Inl TypeError
      | Some (Str s) \<Rightarrow> Inl TypeError
      | Some (Rec element) \<Rightarrow>
          (let rootPath = rootPathOf element;
               path = pathOf element b;
               clipped = clipCommonRoot rootPath path
           in if 0 = length clipped then Inr ((tree, None), markerCount, h)
              else
                (case Marker b markerName markerCount h of (m, count, h1) \<Rightarrow>
                   (case insertMarker m tree clipped h1 of
                      Inl e \<Rightarrow> Inl e
                    | Inr (tree', h2) \<Rightarrow> Inr ((tree', Some m), count, h2)))))"

text \<open>
  \<open>markup\<close> visits the entries of the boundary map in its iteration order, so the map is
  a list of pairs; the result \<open>markers\<close> maps each name to its marker or to \<open>null\<close>.
\<close>

fun markupLoop ::
  "('b boromir \<Rightarrow> nat list) \<Rightarrow> ('b boromir \<Rightarrow> 'b \<Rightarrow> nat list) \<Rightarrow>
   'b location \<Rightarrow> (string \<rightharpoonup> 'b boromir option) \<Rightarrow> (string \<times> 'b) list \<Rightarrow> nat \<Rightarrow> heap \<Rightarrow>
   error + (('b location \<times> (string \<rightharpoonup> 'b boromir option)) \<times> nat \<times> heap)" where
  "markupLoop rootPathOf pathOf tree markers [] markerCount h =
     Inr ((tree, markers), markerCount, h)"
| "markupLoop rootPathOf pathOf tree markers ((key, value) # marked) markerCount h =
     (case markTree rootPathOf pathOf tree value key markerCount h of
        Inl e \<Rightarrow> Inl e
      | Inr ((tree', m), count, h') \<Rightarrow>
          markupLoop rootPathOf pathOf tree' (markers(key \<mapsto> m)) marked count h')"

definition markup ::
  "('b boromir \<Rightarrow> nat list) \<Rightarrow> ('b boromir \<Rightarrow> 'b \<Rightarrow> nat list) \<Rightarrow>
   'b location \<Rightarrow> (string \<times> 'b) list \<Rightarrow> nat \<Rightarrow> heap \<Rightarrow>
   error + (('b location \<times> (string \<rightharpoonup> 'b boromir option)) \<times> nat \<times> heap)" where
  "markup rootPathOf pathOf tree marked markerCount h =
     markupLoop rootPathOf pathOf tree Map.empty marked markerCount h"

definition zipper ::
  "('b boromir \<Rightarrow> nat list) \<Rightarrow> ('b boromir \<Rightarrow> 'b \<Rightarrow> nat list) \<Rightarrow>
   node \<Rightarrow> (string \<times> 'b) list \<Rightarrow> nat \<Rightarrow> heap \<Rightarrow>
   error + (('b location \<times> (string \<rightharpoonup> 'b boromir option)) \<times> nat \<times> heap)" where
  "zipper rootPathOf pathOf element boundaries markerCount h =
     (case create element h of (tree, h') \<Rightarrow>
        markup rootPathOf pathOf tree boundaries markerCount h')"

subsection \<open>The update walk\<close>

text \<open>
  Modelled from the spec: \<open>style(name, value)\<close> of the Record interface sets a
  presentational style property and, like the other setters, returns a new Record.
\<close>

definition setStyle :: "'b boromir \<Rightarrow> string \<Rightarrow> string \<Rightarrow> heap \<Rightarrow> 'b boromir \<times> heap" where
  "setStyle record k v h =
     (Record h (name record) (text' record) (children record) False None None False None
        ((k, v) # filter (\<lambda>p. fst p \<noteq> k) (style record)),
      Suc h)"

text \<open>
  The \<open>mutate\<close> function that \<open>update\<close> hands to \<open>walkPostOrder\<close>; its state is the list
  \<open>paths\<close> of the markers met so far, each with its name and its trail.
\<close>

definition updateMutate ::
  "'b boromir \<Rightarrow> nat list \<Rightarrow> (string option \<times> nat list) list \<Rightarrow> heap \<Rightarrow>
   error + ('b boromir list \<times> (string option \<times> nat list) list \<times> heap)" where
  "updateMutate record trail paths h =
     (if isMarker record then Inr ([], paths @ [(marker record, trail)], h)
      else if isFragmentedText record then
        (case defragmentText record h of
           Inl e \<Rightarrow> Inl e
         | Inr (r, h') \<Rightarrow> Inr ([r], paths, h'))
      else if \<not> isTextRecord record then
        (if length (children record) = 0 then
           (case setStyle record ''outline'' ''3px solid rgba(150, 50, 50, 0.3)'' h of
              (r, h') \<Rightarrow> Inr ([r], paths, h'))
         else
           (case setStyle record ''outline'' ''3px solid rgba(50, 150, 50, 0.3)'' h of
              (r, h') \<Rightarrow> Inr ([r], paths, h')))
      else Inr ([record], paths, h))"

text \<open>
  The walk of \<open>update\<close>. Committing the rebuilt root to the document and turning the
  recorded paths into boundaries is the work of other modules; the model returns the
  rebuilt Location and the recorded paths.
\<close>

definition updateWalk ::
  "('b boromir \<Rightarrow> bool) \<Rightarrow> 'b location \<Rightarrow> heap \<Rightarrow>
   (error + ('b location \<times> (string option \<times> nat list) list \<times> heap)) option" where
  "updateWalk isVoidNode loc h = walkPostOrder isVoidNode updateMutate loc [] h"

subsection \<open>The Location invariant and the content at a split point\<close>

text \<open>
  The invariant of the data model: the items of a Location are the content of the Record
  at the cursor of its innermost frame (strings under a Text record, Records under any
  other Record), and the frames of each frame are the frames outside it. \<open>down\<close>,
  \<open>locationInText\<close> and \<open>FragmentedText\<close> build Locations of this form, and \<open>prev\<close>,
  \<open>next\<close> and \<open>up\<close> keep it. \<open>chain\<close> takes the frames innermost first.
\<close>

definition fits :: "'b boromir \<Rightarrow> 'b content list \<Rightarrow> bool" where
  "fits r c = (if isTextRecord r then strings c \<noteq> None else records c \<noteq> None)"

fun chain :: "'b location list \<Rightarrow> 'b content list \<Rightarrow> bool" where
  "chain [] c = True"
| "chain (f # outer) c =
     (frames f = rev outer
      \<and> (case after f of Some (Rec r) \<Rightarrow> fits r c | _ \<Rightarrow> False)
      \<and> chain outer (lefts f @ rights f))"

definition wellFormed :: "'b location \<Rightarrow> bool" where
  "wellFormed loc = chain (rev (frames loc)) (lefts loc @ rights loc)"

text \<open>
  What a Record holds, as items: its text as one string, or its children. \<open>seam k\<close>
  descends \<open>k\<close> levels along a split point: into the Record just before the cursor on the
  left and into the Record at the cursor on the right. \<open>textIn\<close> and \<open>recordsIn\<close> are the
  text and the Records of a sequence of items, in order.
\<close>

definition itemsOf :: "'b boromir \<Rightarrow> 'b content list" where
  "itemsOf r = (case contents r of Chars s \<Rightarrow> [Str s] | Nodes cs \<Rightarrow> map Rec cs)"

fun seam ::
  "nat \<Rightarrow> 'b content list \<Rightarrow> 'b content list \<Rightarrow> ('b content list \<times> 'b content list) option" where
  "seam 0 ls rs = Some (ls, rs)"
| "seam (Suc k) ls rs =
     (case arrayLast ls of
        Some (Rec l) \<Rightarrow>
          (case rs of
             Rec r # rest \<Rightarrow> seam k (itemsOf l) (itemsOf r)
           | _ \<Rightarrow> None)
      | _ \<Rightarrow> None)"

definition textIn :: "'b content list \<Rightarrow> string" where
  "textIn c = concat (map (\<lambda>x. case x of Str s \<Rightarrow> s | Rec r \<Rightarrow> []) c)"

definition recordsIn :: "'b content list \<Rightarrow> 'b boromir list" where
  "recordsIn c = concat (map (\<lambda>x. case x of Str s \<Rightarrow> [] | Rec r \<Rightarrow> [r]) c)"

text \<open>
  The items that a half of a split holds when it is seeded with \<open>c\<close> under the frame
  \<open>f\<close>: a Text record joins them into one string, any other Record keeps them.
\<close>

definition levelItems :: "'b location \<Rightarrow> 'b content list \<Rightarrow> 'b content list" where
  "levelItems f c =
     (case after f of
        Some (Rec r) \<Rightarrow> if isTextRecord r then [Str (textIn c)] else c
      | _ \<Rightarrow> c)"

text \<open>The loops are executable through their unfolding equations.\<close>

declare walkPostOrderLoop.simps [code]

declare walkPreOrderLoop.simps [code]

subsection \<open>Notions used to state the properties of the walks\<close>

text \<open>
  The \<open>mutate\<close> function that returns its input as a singleton list. \<open>visited\<close> lists
  the Records below a Record that the pre-order walk can stop at: its children and,
  inside every child that is not void, the Records visited there. \<open>weight\<close> counts the
  Records of a tree.
\<close>

definition identityMutate ::
  "'b boromir \<Rightarrow> nat list \<Rightarrow> 's \<Rightarrow> heap \<Rightarrow> error + ('b boromir list \<times> 's \<times> heap)" where
  "identityMutate record trail s h = Inr ([record], s, h)"

definition voidRecord :: "('b boromir \<Rightarrow> bool) \<Rightarrow> 'b boromir \<Rightarrow> bool" where
  "voidRecord isVoidNode record =
     (''#text'' = name record \<or> isMarker record \<or> isVoidNode record)"

fun visited :: "('b boromir \<Rightarrow> bool) \<Rightarrow> 'b boromir \<Rightarrow> 'b boromir list" where
  "visited isVoidNode (Record i n t cs m k b f orig st) =
     (if voidRecord isVoidNode (Record i n t cs m k b f orig st) then []
      else concat (map (\<lambda>c. c # visited isVoidNode c) cs))"

fun weight :: "'b boromir \<Rightarrow> nat" where
  "weight (Record i n t cs m k b f orig st) = Suc (sum_list (map weight cs))"

text \<open>
  The Records that the pre-order walk can stop at in a sequence of siblings: each sibling,
  followed by the Records visited inside it.
\<close>

definition stops :: "('b boromir \<Rightarrow> bool) \<Rightarrow> 'b boromir list \<Rightarrow> 'b boromir list" where
  "stops isVoidNode rs = concat (map (\<lambda>c. c # visited isVoidNode c) rs)"

subsection \<open>What a split has to look like\<close>

text \<open>
  \<open>stopsAt\<close> is the condition under which \<open>split\<close> returns its argument. \<open>halvesAt f\<close>
  reads a sequence of siblings as the result of splitting the Record at the cursor of the
  frame \<open>f\<close>: the siblings left of that Record, then the left half, and the right half
  followed by the siblings right of that Record, both halves bearing the name of the
  Record. \<open>splitLevels j\<close> checks the topmost of \<open>j + 1\<close> split levels and, inside its
  halves, the levels below, down to the halves that hold the original \<open>lefts\<close> and
  \<open>rights\<close>; it also checks that \<open>split\<close> did not stop at any Location on the way.
  \<open>isSplitOf k\<close> says that a Location is the original Location split at exactly \<open>k\<close>
  levels.
\<close>

definition stopsAt :: "('b location \<Rightarrow> bool) option \<Rightarrow> 'b location \<Rightarrow> bool" where
  "stopsAt until loc =
     (case peek loc of
        None \<Rightarrow> False
      | Some frame \<Rightarrow>
          isRoot frame \<or> (case until of Some p \<Rightarrow> p | None \<Rightarrow> (\<lambda>l. False)) loc)"

definition halvesAt ::
  "'b location \<Rightarrow> 'b content list \<Rightarrow> 'b content list \<Rightarrow> ('b boromir \<times> 'b boromir) option" where
  "halvesAt f ls rs =
     (case after f of
        Some (Rec p) \<Rightarrow>
          (case arrayLast ls of
             Some (Rec l) \<Rightarrow>
               (case rs of
                  Rec r # rest \<Rightarrow>
                    if butlast ls = lefts f \<and> rest = sliceFrom (rights f) 1
                       \<and> name l = name p \<and> name r = name p
                    then Some (l, r) else None
                | _ \<Rightarrow> None)
           | _ \<Rightarrow> None)
      | _ \<Rightarrow> None)"

fun splitLevels ::
  "nat \<Rightarrow> ('b location \<Rightarrow> bool) option \<Rightarrow> 'b location \<Rightarrow>
   'b content list \<Rightarrow> 'b content list \<Rightarrow> bool" where
  "splitLevels 0 until loc ls rs =
     (case halvesAt (frames loc ! (length (frames loc) - 1)) ls rs of
        None \<Rightarrow> False
      | Some (l, r) \<Rightarrow>
          \<not> stopsAt until loc
          \<and> itemsOf l = levelItems (frames loc ! (length (frames loc) - 1)) (lefts loc)
          \<and> itemsOf r = levelItems (frames loc ! (length (frames loc) - 1)) (rights loc))"
| "splitLevels (Suc i) until loc ls rs =
     (case halvesAt (frames loc ! (length (frames loc) - Suc (Suc i))) ls rs of
        None \<Rightarrow> False
      | Some (l, r) \<Rightarrow>
          \<not> stopsAt until
               (Location (itemsOf l) (itemsOf r)
                  (take (length (frames loc) - Suc i) (frames loc)))
          \<and> splitLevels i until loc (itemsOf l) (itemsOf r))"

definition isSplitOf ::
  "nat \<Rightarrow> ('b location \<Rightarrow> bool) option \<Rightarrow> 'b location \<Rightarrow> 'b location \<Rightarrow> bool" where
  "isSplitOf k until loc loc' =
     (case k of
        0 \<Rightarrow> loc' = loc
      | Suc j \<Rightarrow>
          frames loc' = take (length (frames loc) - k) (frames loc)
          \<and> splitLevels j until loc (lefts loc') (rights loc'))"

text \<open>
  All Records below a Record, whether the walk can reach them or not, and the void-node
  test that holds of \<open>br\<close> elements only, an instance of the parameter \<open>isVoidNode\<close>
  for concrete runs.
\<close>

fun descendants :: "'b boromir \<Rightarrow> 'b boromir list" where
  "descendants (Record i n t cs m k b f orig st) = concat (map (\<lambda>c. c # descendants c) cs)"

definition brIsVoid :: "'b boromir \<Rightarrow> bool" where
  "brIsVoid record = (name record = ''BR'')"

section \<open>Slicing lemmas\<close>

lemma nat_max_diff: "nat (max (int l - n) 0) = l - nat n" if "0 \<le> n"
  using that by linarith

lemma slice_zero_neg:
  "0 \<le> n \<Longrightarrow> slice xs 0 (- n) = (if n = 0 then [] else take (length xs - nat n) xs)"
  by (simp add: slice_def relativeIndex_def Let_def nat_max_diff)

lemma sliceFrom_neg:
  "0 \<le> n \<Longrightarrow> sliceFrom xs (- n) = drop (if n = 0 then 0 else length xs - nat n) xs"
  by (simp add: sliceFrom_def relativeIndex_def nat_max_diff)

lemma slice_zero_nonneg:
  "0 \<le> n \<Longrightarrow> slice xs 0 n = take (nat n) xs"
  by (auto simp: slice_def relativeIndex_def Let_def min_def)

lemma sliceFrom_nonneg:
  "0 \<le> n \<Longrightarrow> sliceFrom xs n = drop (nat n) xs"
  by (auto simp: sliceFrom_def relativeIndex_def min_def)

lemma slice_sliceFrom_append:
  "slice xs 0 n @ sliceFrom xs n = xs"
  by (auto simp: slice_def sliceFrom_def relativeIndex_def Let_def)

section \<open>Navigation and splicing with out-of-range counts\<close>

lemma prev_excess:
  assumes "int (length (lefts loc)) \<le> n"
  shows "prev loc (Some n) = Location [] (lefts loc @ rights loc) (frames loc)"
proof -
  have n0: "0 \<le> n" using assms by linarith
  have "length (lefts loc) \<le> nat n" using assms by linarith
  then show ?thesis
    using n0 by (simp add: prev_def slice_zero_neg sliceFrom_neg)
qed

lemma next_excess:
  assumes "int (length (rights loc)) \<le> n"
  shows "next' loc (Some n) = Location (lefts loc @ rights loc) [] (frames loc)"
proof -
  have n0: "0 \<le> n" using assms by linarith
  have "length (rights loc) \<le> nat n" using assms by linarith
  then show ?thesis
    using n0 by (simp add: next'_def slice_zero_nonneg sliceFrom_nonneg)
qed

lemma splice_excess:
  assumes "int (length (rights loc)) \<le> n"
  shows "splice' loc n replacement =
           Location (lefts loc)
             (case replacement of One r \<Rightarrow> [Rec r] | Many xs \<Rightarrow> xs | Nothing \<Rightarrow> [])
             (frames loc)"
proof -
  have n0: "0 \<le> n" using assms by linarith
  have "length (rights loc) \<le> nat n" using assms by linarith
  then show ?thesis
    using n0 by (simp add: splice'_def sliceFrom_nonneg)
qed

lemma prev_content: "lefts (prev loc stride) @ rights (prev loc stride) = lefts loc @ rights loc"
  by (simp add: prev_def Let_def slice_sliceFrom_append flip: append_assoc)

lemma next_content: "lefts (next' loc stride) @ rights (next' loc stride) = lefts loc @ rights loc"
  by (simp add: next'_def Let_def slice_sliceFrom_append)

text \<open>
  C8. \<open>prev\<close>, \<open>next\<close> and \<open>splice\<close> return a Location for every argument (none of them
  has a failing branch). A stride that is at least the number of siblings on the side it
  moves over leaves that side empty and all content on the other side; a drop count that
  is at least the length of \<open>rights\<close> leaves only the replacement items on the right; and
  for every stride \<open>prev\<close> and \<open>next\<close> preserve \<open>lefts ++ rights\<close>.
\<close>

theorem excess_counts_degrade_to_empty:
  "(int (length (lefts loc)) \<le> n \<longrightarrow>
      prev loc (Some n) = Location [] (lefts loc @ rights loc) (frames loc))
   \<and> (int (length (rights loc)) \<le> n \<longrightarrow>
      next' loc (Some n) = Location (lefts loc @ rights loc) [] (frames loc))
   \<and> (int (length (rights loc)) \<le> n \<longrightarrow>
      splice' loc n replacement =
        Location (lefts loc)
          (case replacement of One r \<Rightarrow> [Rec r] | Many xs \<Rightarrow> xs | Nothing \<Rightarrow> [])
          (frames loc))
   \<and> lefts (prev loc stride) @ rights (prev loc stride) = lefts loc @ rights loc
   \<and> lefts (next' loc stride) @ rights (next' loc stride) = lefts loc @ rights loc"
  using prev_excess [of loc n] next_excess [of loc n] splice_excess [of loc n replacement]
    prev_content [of loc stride] next_content [of loc stride]
  by blast

theorem excess_counts_degrade_to_empty_witness:
  "int (length (lefts (Location [Str ''a'', Str ''b''] [Str ''c''] ([] :: unit location list)))) \<le> 5
   \<and> int (length (rights (Location [Str ''a'', Str ''b''] [Str ''c''] ([] :: unit location list)))) \<le> 5
   \<and> prev (Location [Str ''a'', Str ''b''] [Str ''c''] ([] :: unit location list)) (Some 5)
       = Location [] [Str ''a'', Str ''b'', Str ''c''] []
   \<and> next' (Location [Str ''a'', Str ''b''] [Str ''c''] ([] :: unit location list)) (Some 5)
       = Location [Str ''a'', Str ''b'', Str ''c''] [] []
   \<and> splice' (Location [Str ''a'', Str ''b''] [Str ''c''] ([] :: unit location list)) 5
        (Many [Str ''x'']) = Location [Str ''a'', Str ''b''] [Str ''x''] []"
  using excess_counts_degrade_to_empty
    [of "Location [Str ''a'', Str ''b''] [Str ''c''] ([] :: unit location list)" 5 "Many [Str ''x'']"]
  by simp

section \<open>Stride zero\<close>

text \<open>
  C9. \<open>next\<close> with stride 0 returns a Location equal to its argument. \<open>prev\<close> with stride 0
  returns empty \<open>lefts\<close> and \<open>lefts ++ rights\<close> as \<open>rights\<close> (the end index \<open>-0\<close> of the
  slice is 0), so it is the identity only on a Location whose \<open>lefts\<close> is empty.
\<close>

theorem zero_stride_asymmetry:
  "next' loc (Some 0) = loc
   \<and> prev loc (Some 0) = Location [] (lefts loc @ rights loc) (frames loc)
   \<and> (prev loc (Some 0) = loc \<longleftrightarrow> lefts loc = [])"
  by (cases loc) (auto simp: next'_def prev_def slice_zero_nonneg sliceFrom_nonneg
      slice_zero_neg [of 0, simplified] sliceFrom_neg [of 0, simplified])

section \<open>Offsets into fragmented text\<close>

lemma foldl_fragment_sum:
  "foldl (\<lambda>sum record. sum + length (text' record)) a fs
     = a + foldl (\<lambda>sum record. sum + length (text' record)) 0 fs"
proof (induction fs arbitrary: a)
  case Nil
  show ?case by simp
next
  case (Cons f fs)
  show ?case
    using Cons [of "a + length (text' f)"] Cons [of "length (text' f)"] by simp
qed

lemma fragmentsLength_Nil [simp]: "fragmentsLength [] = 0"
  by (simp add: fragmentsLength_def)

lemma fragmentsLength_Cons [simp]: "fragmentsLength (f # fs) = length (text' f) + fragmentsLength fs"
  using foldl_fragment_sum [of "length (text' f)" fs] by (simp add: fragmentsLength_def)

lemma fragmentedOffsetLoop_end:
  "\<not> index < length fragments \<Longrightarrow>
   fragmentedOffsetLoop fragments index remainder = Inl TextOffsetOutOfBounds"
  by (subst fragmentedOffsetLoop.simps) simp

lemma fragmentedOffsetLoop_marker:
  "index < length fragments \<Longrightarrow> isMarker (fragments ! index) \<Longrightarrow>
   fragmentedOffsetLoop fragments index remainder
     = fragmentedOffsetLoop fragments (Suc index) remainder"
  by (subst fragmentedOffsetLoop.simps) simp

lemma fragmentedOffsetLoop_exact:
  "index < length fragments \<Longrightarrow> \<not> isMarker (fragments ! index) \<Longrightarrow>
   remainder = length (text' (fragments ! index)) \<Longrightarrow>
   fragmentedOffsetLoop fragments index remainder = Inr [Suc index]"
  by (subst fragmentedOffsetLoop.simps) simp

lemma fragmentedOffsetLoop_inside:
  "index < length fragments \<Longrightarrow> \<not> isMarker (fragments ! index) \<Longrightarrow>
   remainder < length (text' (fragments ! index)) \<Longrightarrow>
   fragmentedOffsetLoop fragments index remainder = Inr [index, remainder]"
  by (subst fragmentedOffsetLoop.simps) (simp add: Let_def)

lemma fragmentedOffsetLoop_beyond:
  "index < length fragments \<Longrightarrow> \<not> isMarker (fragments ! index) \<Longrightarrow>
   length (text' (fragments ! index)) < remainder \<Longrightarrow>
   fragmentedOffsetLoop fragments index remainder
     = fragmentedOffsetLoop fragments (Suc index) (remainder - length (text' (fragments ! index)))"
  by (subst fragmentedOffsetLoop.simps) (simp add: Let_def nat_diff_distrib')

lemma fragmentedOffsetLoop_fails:
  "0 < remainder \<Longrightarrow>
   (fragmentedOffsetLoop fragments index remainder = Inl TextOffsetOutOfBounds
      \<longleftrightarrow> fragmentsLength (filter (\<lambda>f. \<not> isMarker f) (drop index fragments)) < remainder)
   \<and> (\<forall>e. fragmentedOffsetLoop fragments index remainder = Inl e \<longrightarrow> e = TextOffsetOutOfBounds)"
proof (induction "length fragments - index" arbitrary: index remainder)
  case 0
  then show ?case by (simp add: fragmentedOffsetLoop_end)
next
  case (Suc k)
  then have lt: "index < length fragments" and k: "k = length fragments - Suc index" by simp_all
  have dr: "drop index fragments = fragments ! index # drop (Suc index) fragments"
    using lt by (simp add: Cons_nth_drop_Suc)
  let ?l = "length (text' (fragments ! index))"
  show ?case
  proof (cases "isMarker (fragments ! index)")
    case True
    then show ?thesis
      using Suc.hyps(1) [OF k Suc.prems] lt by (simp add: fragmentedOffsetLoop_marker dr)
  next
    case False
    consider "remainder = ?l" | "remainder < ?l" | "?l < remainder" by linarith
    then show ?thesis
    proof cases
      case 1
      then show ?thesis using False lt by (simp add: fragmentedOffsetLoop_exact dr)
    next
      case 2
      then show ?thesis using False lt by (simp add: fragmentedOffsetLoop_inside dr)
    next
      case 3
      then have pos: "0 < remainder - ?l" by simp
      show ?thesis
        using Suc.hyps(1) [OF k pos] False lt 3
        by (simp add: fragmentedOffsetLoop_beyond dr) linarith
    qed
  qed
qed


text \<open>
  C3. On a record whose children are the marker-free Text fragments \<open>ab\<close> and \<open>cd\<close>,
  \<open>fragmentedOffset\<close> returns \<open>[0]\<close>, \<open>[1]\<close>, \<open>[1, 1]\<close> and \<open>[2]\<close> for the offsets 0, 2, 3
  and 4 and fails with the out-of-bounds error for offset 5. On any record whose children
  are markers and Text fragments it fails, with that error, exactly when the offset exceeds
  the total length of the fragments that are not markers, and returns offsets otherwise.
\<close>

theorem fragmentedOffset_table_and_bound:
  "(map text' (children r) = [''ab'', ''cd'']
      \<and> (\<forall>f \<in> set (children r). isTextRecord f \<and> \<not> isMarker f) \<longrightarrow>
        fragmentedOffset r 0 = Inr [0]
      \<and> fragmentedOffset r 2 = Inr [1]
      \<and> fragmentedOffset r 3 = Inr [1, 1]
      \<and> fragmentedOffset r 4 = Inr [2]
      \<and> fragmentedOffset r 5 = Inl TextOffsetOutOfBounds)
   \<and> ((\<forall>f \<in> set (children q). isMarker f \<or> isTextRecord f) \<longrightarrow>
        (if fragmentsLength (filter (\<lambda>f. \<not> isMarker f) (children q)) < offset
         then fragmentedOffset q offset = Inl TextOffsetOutOfBounds
         else \<exists>path. fragmentedOffset q offset = Inr path))"
proof (intro conjI impI)
  assume a: "map text' (children r) = [''ab'', ''cd'']
      \<and> (\<forall>f \<in> set (children r). isTextRecord f \<and> \<not> isMarker f)"
  then obtain f1 f2 where c: "children r = [f1, f2]" by auto
  with a have t: "text' f1 = ''ab''" "text' f2 = ''cd''" "\<not> isMarker f1" "\<not> isMarker f2"
    by auto
  show "fragmentedOffset r 0 = Inr [0]" by (simp add: fragmentedOffset_def)
  show "fragmentedOffset r 2 = Inr [1]"
    using c t by (simp add: fragmentedOffset_def fragmentedOffsetLoop_exact)
  have "fragmentedOffsetLoop [f1, f2] 0 3 = fragmentedOffsetLoop [f1, f2] (Suc 0) (3 - 2)"
    using t fragmentedOffsetLoop_beyond [of 0 "[f1, f2]" 3] by simp
  then show "fragmentedOffset r 3 = Inr [1, 1]"
    using c t by (simp add: fragmentedOffset_def fragmentedOffsetLoop_inside)
  have "fragmentedOffsetLoop [f1, f2] 0 4 = fragmentedOffsetLoop [f1, f2] (Suc 0) (4 - 2)"
    using t fragmentedOffsetLoop_beyond [of 0 "[f1, f2]" 4] by simp
  then show "fragmentedOffset r 4 = Inr [2]"
    using c t by (simp add: fragmentedOffset_def fragmentedOffsetLoop_exact)
  show "fragmentedOffset r 5 = Inl TextOffsetOutOfBounds"
    using c t fragmentedOffsetLoop_fails [of 5 "[f1, f2]" 0]
    by (simp add: fragmentedOffset_def)
next
  show "if fragmentsLength (filter (\<lambda>f. \<not> isMarker f) (children q)) < offset
         then fragmentedOffset q offset = Inl TextOffsetOutOfBounds
         else \<exists>path. fragmentedOffset q offset = Inr path"
  proof (cases "offset = 0")
    case True
    then show ?thesis by (simp add: fragmentedOffset_def)
  next
    case False
    then have pos: "0 < offset" by simp
    show ?thesis
      using fragmentedOffsetLoop_fails [OF pos, of "children q" 0] False
      by (cases "fragmentedOffsetLoop (children q) 0 offset") (auto simp: fragmentedOffset_def)
  qed
qed

theorem fragmentedOffset_table_and_bound_witness:
  "fragmentedOffset (Record 0 ''Q'' []
       [Record 1 ''#text'' ''ab'' [] False None None False None [],
        Record 2 ''#text'' ''cd'' [] False None None False None []]
       False None (None :: unit option) False None []) 3 = Inr [1, 1]
   \<and> fragmentedOffset (Record 0 ''Q'' []
       [Record 1 ''#text'' ''ab'' [] False None None False None [],
        Record 3 ''CODE'' [] [] True (Some ''start'') None False None [],
        Record 2 ''#text'' ''cd'' [] False None None False None []]
       False None (None :: unit option) False None []) 5 = Inl TextOffsetOutOfBounds"
  using fragmentedOffset_table_and_bound
    [of "Record 0 ''Q'' []
       [Record 1 ''#text'' ''ab'' [] False None None False None [],
        Record 2 ''#text'' ''cd'' [] False None None False None []]
       False None (None :: unit option) False None []"
      "Record 0 ''Q'' []
       [Record 1 ''#text'' ''ab'' [] False None None False None [],
        Record 3 ''CODE'' [] [] True (Some ''start'') None False None [],
        Record 2 ''#text'' ''cd'' [] False None None False None []]
       False None (None :: unit option) False None []" 5]
  by (simp add: isTextRecord_def isMarker_def)

section \<open>Defragmentation\<close>

lemma foldl_snoc_texts:
  "foldl (\<lambda>strings string. strings @ [text' string]) acc xs = acc @ map text' xs"
  by (induction xs arbitrary: acc) simp_all

lemma createRecord_text:
  "createRecord ''#text'' (Some [Str t]) h
     = Inr (Record (Suc h) ''#text'' t [] False None None False None [], Suc (Suc h))"
  by (simp add: createRecord_def createTextNode_def setContents_def isTextRecord_def
      setText_def)

lemma createRecord_text_empty:
  "createRecord ''#text'' None h
     = Inr (Record h ''#text'' [] [] False None None False None [], Suc h)"
  by (simp add: createRecord_def createTextNode_def)

lemma filter_text_not_marker:
  "\<forall>f \<in> set fs. isMarker f \<longrightarrow> \<not> isTextRecord f \<Longrightarrow>
   filter isTextRecord fs = filter (\<lambda>f. isTextRecord f \<and> \<not> isMarker f) fs"
  by (induction fs) auto

text \<open>
  C4. \<open>defragmentText\<close> concatenates the text of the Text children of the record that are
  not markers (a marker is an element, never a Text record). When the record has an
  \<open>original\<close> whose text equals the concatenation, the result is that very instance and
  nothing is allocated. Otherwise the result is a new Text record that carries the
  concatenated text; its \<open>ident\<close> comes from the allocation counter, so it is none of the
  instances that existed before the call.
\<close>

theorem defragmentText_original_or_fresh:
  assumes "\<forall>f \<in> set (children record). isMarker f \<longrightarrow> \<not> isTextRecord f"
  shows "let text = concat (map text' (filter (\<lambda>f. isTextRecord f \<and> \<not> isMarker f) (children record)))
         in (\<forall>orig. original record = Some orig \<and> text' orig = text \<longrightarrow>
                defragmentText record h = Inr (orig, h))
          \<and> (original record = None \<or> (\<exists>orig. original record = Some orig \<and> text' orig \<noteq> text) \<longrightarrow>
                (\<exists>fresh h'. defragmentText record h = Inr (fresh, h')
                   \<and> isTextRecord fresh \<and> text' fresh = text
                   \<and> h \<le> ident fresh \<and> ident fresh < h'
                   \<and> (\<forall>r. ident r < h \<longrightarrow> fresh \<noteq> r)))"
  using filter_text_not_marker [OF assms]
  by (auto simp: defragmentText_def Let_def foldl_snoc_texts createRecord_text isTextRecord_def)

theorem defragmentText_original_or_fresh_witness:
  "defragmentText (Record 3 ''Q'' []
        [Record 4 ''#text'' ''ab'' [] False None None False None [],
         Record 5 ''#text'' ''c'' [] False None None False None []]
        False None (None :: unit option) True
        (Some (Record 1 ''#text'' ''abc'' [] False None None False None [])) []) 6
      = Inr (Record 1 ''#text'' ''abc'' [] False None None False None [], 6)
   \<and> (\<exists>fresh h'. defragmentText (Record 3 ''Q'' []
        [Record 4 ''#text'' ''ab'' [] False None None False None [],
         Record 5 ''#text'' ''d'' [] False None None False None []]
        False None (None :: unit option) True
        (Some (Record 1 ''#text'' ''abc'' [] False None None False None [])) []) 6 = Inr (fresh, h')
      \<and> isTextRecord fresh \<and> text' fresh = ''abd'' \<and> 6 \<le> ident fresh)"
proof -
  have m: "\<forall>f \<in> set (children (Record 3 ''Q'' []
        [Record 4 ''#text'' ''ab'' [] False None None False None [],
         Record 5 ''#text'' t [] False None None False None []]
        False None (None :: unit option) True
        (Some (Record 1 ''#text'' ''abc'' [] False None None False None [])) [])).
      isMarker f \<longrightarrow> \<not> isTextRecord f" for t
    by (simp add: isMarker_def)
  show ?thesis
    using defragmentText_original_or_fresh [OF m [of "''c''"], of 6]
      defragmentText_original_or_fresh [OF m [of "''d''"], of 6]
    by (simp add: isTextRecord_def isMarker_def Let_def) blast
qed

section \<open>Session round trip\<close>

lemma shape_BoromirAll:
  assumes "\<And>c h. c \<in> set ns \<Longrightarrow> shape (fst (Boromir c h :: 'b boromir \<times> heap)) = c"
  shows "map shape (fst (BoromirAll ns h :: 'b boromir list \<times> heap)) = ns"
  using assms
proof (induction ns arbitrary: h)
  case Nil
  show ?case by simp
next
  case (Cons c cs)
  obtain r h1 where b: "Boromir c h = (r :: 'b boromir, h1)"
    by (cases "Boromir c h :: 'b boromir \<times> heap")
  obtain rs h2 where bs: "BoromirAll cs h1 = (rs :: 'b boromir list, h2)"
    by (cases "BoromirAll cs h1 :: 'b boromir list \<times> heap")
  from Cons.prems [of c h] b have "shape r = c" by simp
  moreover from Cons.IH [of h1] Cons.prems bs have "map shape rs = cs" by simp
  ultimately show ?case using b bs by simp
qed

lemma shape_Boromir: "shape (fst (Boromir n h :: 'b boromir \<times> heap)) = n"
proof (induction n arbitrary: h)
  case (Node n d cs)
  obtain rs h' where bs: "BoromirAll cs (Suc h) = (rs :: 'b boromir list, h')"
    by (cases "BoromirAll cs (Suc h) :: 'b boromir list \<times> heap")
  from shape_BoromirAll [of cs "Suc h", where 'b = 'b] Node bs have "map shape rs = cs" by simp
  then show ?case using bs by simp
qed

lemma root_no_frames: "frames loc = [] \<Longrightarrow> root loc h = Inr (loc, h)"
  by (simp add: root_def)

text \<open>
  C2. A session opened on a tree \<open>T\<close> with an empty boundary map succeeds, inserts no
  marker, and \<open>root\<close> of the Location it returns has at its cursor a Record that is
  structurally equal to \<open>T\<close>.
\<close>

theorem zipper_root_round_trip:
  fixes rootPathOf :: "'b boromir \<Rightarrow> nat list"
  shows "\<exists>tree markerCount' h' top h'' record.
     zipper rootPathOf pathOf T [] markerCount h = Inr ((tree, Map.empty), markerCount', h')
     \<and> root tree h' = Inr (top, h'')
     \<and> after top = Some (Rec record)
     \<and> shape record = T"
proof -
  obtain r h' where b: "Boromir T h = (r :: 'b boromir, h')"
    by (cases "Boromir T h :: 'b boromir \<times> heap")
  then have s: "shape r = T" using shape_Boromir [of T h, where 'b = 'b] by simp
  have z: "zipper rootPathOf pathOf T [] markerCount h
             = Inr ((Location [] [Rec r] [], Map.empty), markerCount, h')"
    using b by (simp add: zipper_def create_def markup_def)
  have "root (Location [] [Rec r] []) h' = Inr (Location [] [Rec r] [], h')"
    by (simp add: root_no_frames)
  with z s show ?thesis by (auto simp: after_def)
qed

section \<open>Boundaries outside the session root\<close>

lemma clipCommonRootLoop_diverges:
  "\<exists>j. i \<le> j \<and> j < length rootPath \<and> (j < length path \<longrightarrow> path ! j \<noteq> rootPath ! j) \<Longrightarrow>
   clipCommonRootLoop rootPath path i = []"
proof (induction "length rootPath - i" arbitrary: i)
  case 0
  then show ?case by auto
next
  case (Suc k)
  then obtain j where j: "i \<le> j" "j < length rootPath" "j < length path \<longrightarrow> path ! j \<noteq> rootPath ! j"
    by blast
  then have lt: "i < length rootPath" by simp
  show ?case
  proof (cases "(if i < length path then Some (path ! i) else None) \<noteq> Some (rootPath ! i)")
    case True
    then show ?thesis using lt by (subst clipCommonRootLoop.simps) simp
  next
    case False
    then have "j \<noteq> i" using j by (auto split: if_splits)
    then have "\<exists>j. i + 1 \<le> j \<and> j < length rootPath \<and> (j < length path \<longrightarrow> path ! j \<noteq> rootPath ! j)"
      using j by (intro exI [of _ j]) simp
    moreover have "k = length rootPath - (i + 1)" using Suc.hyps(2) by simp
    ultimately have "clipCommonRootLoop rootPath path (i + 1) = []" by (rule Suc.hyps(1) [rotated])
    then show ?thesis using lt False by (subst clipCommonRootLoop.simps) simp
  qed
qed

lemma markupLoop_keeps_other_keys:
  "markupLoop rootPathOf pathOf tree markers marked markerCount h = Inr ((tree', markers'), c', h') \<Longrightarrow>
   key \<notin> fst ` set marked \<Longrightarrow> markers' key = markers key"
proof (induction marked arbitrary: tree markers markerCount h)
  case Nil
  then show ?case by simp
next
  case (Cons kv marked)
  obtain k v where kv: "kv = (k, v)" by (cases kv)
  from Cons.prems(1) obtain t m c1 h1 where
    mt: "markTree rootPathOf pathOf tree v k markerCount h = Inr ((t, m), c1, h1)"
    and rest: "markupLoop rootPathOf pathOf t (markers(k \<mapsto> m)) marked c1 h1 = Inr ((tree', markers'), c', h')"
    by (auto simp: kv split: sum.splits)
  from Cons.IH [OF rest] Cons.prems(2) show ?case by (simp add: kv)
qed

text \<open>
  C7. Let the path of a boundary diverge from the path of the session root before the root
  path ends (at some index of the root path the boundary path has ended or holds another
  offset), and let the cursor of the tree be the root element. Then \<open>clipCommonRoot\<close>
  yields the empty sequence; \<open>markTree\<close> returns the tree Location it was given together
  with the \<open>null\<close> marker, without raising, creating a marker or advancing
  \<open>markerCount\<close>; and \<open>markup\<close> records \<open>null\<close> under that name and goes on with the
  remaining boundaries from the same tree. The name still maps to \<open>null\<close> in the final
  result when no later entry bears it.
\<close>

theorem boundary_outside_root_is_skipped:
  assumes diverges:
      "\<exists>i < length (rootPathOf element).
         i < length (pathOf element b) \<longrightarrow> pathOf element b ! i \<noteq> rootPathOf element ! i"
    and cursor: "after tree = Some (Rec element)"
  shows "clipCommonRoot (rootPathOf element) (pathOf element b) = []
    \<and> markTree rootPathOf pathOf tree b key markerCount h = Inr ((tree, None), markerCount, h)
    \<and> markupLoop rootPathOf pathOf tree markers ((key, b) # marked) markerCount h
        = markupLoop rootPathOf pathOf tree (markers(key \<mapsto> None)) marked markerCount h
    \<and> (\<forall>tree' markers' c' h'.
          markupLoop rootPathOf pathOf tree markers ((key, b) # marked) markerCount h
            = Inr ((tree', markers'), c', h') \<and> key \<notin> fst ` set marked
          \<longrightarrow> markers' key = Some None)"
proof -
  have clip: "clipCommonRoot (rootPathOf element) (pathOf element b) = []"
    unfolding clipCommonRoot_def
    using diverges by (intro clipCommonRootLoop_diverges) auto
  then have mt: "markTree rootPathOf pathOf tree b key markerCount h = Inr ((tree, None), markerCount, h)"
    using cursor by (simp add: markTree_def)
  then have step: "markupLoop rootPathOf pathOf tree markers ((key, b) # marked) markerCount h
        = markupLoop rootPathOf pathOf tree (markers(key \<mapsto> None)) marked markerCount h"
    by simp
  show ?thesis
    using clip mt step markupLoop_keeps_other_keys [of rootPathOf pathOf tree "markers(key \<mapsto> None)" marked markerCount h _ _ _ _ key]
    by auto
qed

theorem boundary_outside_root_is_skipped_witness:
  "clipCommonRoot [0, 1] [0, 2, 5] = []
   \<and> markTree (\<lambda>e. [0, 1]) (\<lambda>e b. b)
        (Location [] [Rec (Record 0 ''DIV'' [] [] False None None False None [])] [])
        [0, 2, 5] ''start'' 0 1
       = Inr ((Location [] [Rec (Record 0 ''DIV'' [] [] False None None False None [])] [], None), 0, 1)"
proof -
  let ?e = "Record 0 ''DIV'' [] [] False None None False None [] :: nat list boromir"
  have d: "\<exists>i < length ((\<lambda>e. [0, 1]) ?e).
      i < length ((\<lambda>e b. b) ?e [0, 2, 5 :: nat])
      \<longrightarrow> (\<lambda>e b. b) ?e [0, 2, 5 :: nat] ! i \<noteq> (\<lambda>e. [0, 1]) ?e ! i"
    by (rule exI [of _ 1]) simp
  have c: "after (Location [] [Rec ?e] []) = Some (Rec ?e)"
    by (simp add: after_def)
  show ?thesis
    using boundary_outside_root_is_skipped [of "\<lambda>e. [0, 1]" ?e "\<lambda>e b. b" "[0, 2, 5]",
        OF d c, of "''start''" 0 1 Map.empty "[]"]
    by simp
qed

section \<open>Splitting preserves content\<close>

lemma strings_append:
  "strings (a @ b) =
     (case strings a of None \<Rightarrow> None
      | Some x \<Rightarrow> (case strings b of None \<Rightarrow> None | Some y \<Rightarrow> Some (x @ y)))"
  by (induction a rule: strings.induct) (auto split: option.splits)

lemma records_append:
  "records (a @ b) =
     (case records a of None \<Rightarrow> None
      | Some x \<Rightarrow> (case records b of None \<Rightarrow> None | Some y \<Rightarrow> Some (x @ y)))"
  by (induction a rule: records.induct) (auto split: option.splits)

lemma strings_Some: "strings c = Some ss \<Longrightarrow> c = map Str ss"
  by (induction c arbitrary: ss rule: strings.induct) auto

lemma records_Some: "records c = Some rs \<Longrightarrow> c = map Rec rs"
  by (induction c arbitrary: rs rule: records.induct) auto

lemma strings_map_Str [simp]: "strings (map Str ss) = Some ss"
  by (induction ss) auto

lemma records_map_Rec [simp]: "records (map Rec rs) = Some rs"
  by (induction rs) auto

lemma textIn_map_Str [simp]: "textIn (map Str ss) = concat ss"
  by (induction ss) (auto simp: textIn_def)

lemma recordsIn_map_Str [simp]: "recordsIn (map Str ss) = []"
  by (induction ss) (auto simp: recordsIn_def)

lemma slice_butlast [simp]: "slice (fs @ [f]) 0 (- 1) = fs"
  by (simp add: slice_def relativeIndex_def)

lemma sliceFrom_one [simp]: "sliceFrom xs 1 = drop 1 xs"
  by (simp add: sliceFrom_def relativeIndex_def min_def)

lemma arrayLast_snoc [simp]: "arrayLast (xs @ [x]) = Some x"
  by (simp add: arrayLast_def)

lemma up_text:
  assumes "frames loc = fs @ [f]" "after f = Some (Rec r)" "isTextRecord r"
    "strings (lefts loc @ rights loc) = Some ss"
  shows "up loc h = Inr (Location (lefts f)
           (Rec (Record h (name r) (concat ss) (children r) False None None False None (style r))
              # drop 1 (rights f)) fs, Suc h)"
  using assms by (simp add: up_def setContents_def setText_def)

lemma up_element:
  assumes "frames loc = fs @ [f]" "after f = Some (Rec r)" "\<not> isTextRecord r"
    "records (lefts loc @ rights loc) = Some rs"
  shows "up loc h = Inr (Location (lefts f)
           (Rec (Record h (name r) (text' r) rs False None None False None (style r))
              # drop 1 (rights f)) fs, Suc h)"
  using assms by (simp add: up_def setContents_def setChildren_def)

lemma Boromir_leaf:
  "Boromir (Node n d []) h = (Record h n d [] False None None False None [], Suc h)"
  by simp

lemma split_step_text:
  assumes fr: "frames loc = fs @ [f]" and fs: "frames f \<noteq> []"
    and cur: "after f = Some (Rec r)" and isT: "isTextRecord r"
    and sl: "strings (lefts loc) = Some sl" and sr: "strings (rights loc) = Some sr"
    and un: "\<not> (case until of Some p \<Rightarrow> p | None \<Rightarrow> (\<lambda>l. False)) loc"
  shows "split loc until h
           = split (Location
                (lefts f @ [Rec (Record (Suc (Suc (Suc h))) (name r) (concat sl) [] False None None False None [])])
                (Rec (Record (Suc (Suc (Suc (Suc h)))) (name r) (concat sr) [] False None None False None [])
                   # drop 1 (rights f)) fs) until (Suc (Suc (Suc (Suc (Suc h)))))"
proof -
  have ss: "strings (lefts loc @ rights loc) = Some (sl @ sr)"
    using sl sr by (simp add: strings_append)
  note u = up_text [OF fr cur isT ss, of h]
  have pk: "peek loc = Some f" using fr by (simp add: peek_def)
  have nr: "\<not> isRoot f" using fs by (simp add: isRoot_def)
  have nm: "name r = ''#text''" using isT by (simp add: isTextRecord_def)
  show ?thesis
    using un pk nr u sl sr
    by (subst split.simps)
      (simp add: Let_def createRecord_def createTextNode_def clone_def cloneShallow_def
        setContents_def setText_def isTextRecord_def after_def nm)
qed

lemma split_step_element:
  assumes fr: "frames loc = fs @ [f]" and fs: "frames f \<noteq> []"
    and cur: "after f = Some (Rec r)" and isT: "\<not> isTextRecord r"
    and rl: "records (lefts loc) = Some rl" and rr: "records (rights loc) = Some rr"
    and un: "\<not> (case until of Some p \<Rightarrow> p | None \<Rightarrow> (\<lambda>l. False)) loc"
  shows "split loc until h
           = split (Location
                (lefts f @ [Rec (Record (Suc (Suc (Suc h))) (name r) (text' r) rl False None None False None [])])
                (Rec (Record (Suc (Suc (Suc (Suc h)))) (name r) (text' r) rr False None None False None [])
                   # drop 1 (rights f)) fs) until (Suc (Suc (Suc (Suc (Suc h)))))"
proof -
  have rs: "records (lefts loc @ rights loc) = Some (rl @ rr)"
    using rl rr by (simp add: records_append)
  note u = up_element [OF fr cur isT rs, of h]
  have pk: "peek loc = Some f" using fr by (simp add: peek_def)
  have nr: "\<not> isRoot f" using fs by (simp add: isRoot_def)
  have "rights loc = map Rec rr" using records_Some [OF rr] .
  then have nt: "\<not> isTextLocation loc"
    by (cases rr) (auto simp: isTextLocation_def after_def)
  show ?thesis
    using un pk nr u rl rr nt isT
    by (subst split.simps)
      (simp add: Let_def clone_def cloneShallow_def
        setContents_def setChildren_def isTextRecord_def after_def)
qed

lemma split_step:
  assumes fr: "frames loc = fs @ [f]" and fs: "frames f \<noteq> []"
    and cur: "after f = Some (Rec r)" and fit: "fits r (lefts loc @ rights loc)"
    and un: "\<not> (case until of Some p \<Rightarrow> p | None \<Rightarrow> (\<lambda>l. False)) loc"
  shows "\<exists>l' r' h5. split loc until h
           = split (Location (lefts f @ [Rec l']) (Rec r' # drop 1 (rights f)) fs) until h5
         \<and> itemsOf l' = levelItems f (lefts loc) \<and> itemsOf r' = levelItems f (rights loc)
         \<and> name l' = name r \<and> name r' = name r"
proof (cases "isTextRecord r")
  case True
  with fit obtain sl sr where sl: "strings (lefts loc) = Some sl" and sr: "strings (rights loc) = Some sr"
    by (auto simp: fits_def strings_append split: option.splits)
  have tl: "textIn (lefts loc) = concat sl" "textIn (rights loc) = concat sr"
    using strings_Some [OF sl] strings_Some [OF sr] by simp_all
  let ?l = "Record (Suc (Suc (Suc h))) (name r) (concat sl) [] False None None False None []"
  let ?r = "Record (Suc (Suc (Suc (Suc h)))) (name r) (concat sr) [] False None None False None []"
  have "itemsOf ?l = levelItems f (lefts loc)" "itemsOf ?r = levelItems f (rights loc)"
    "name ?l = name r" "name ?r = name r"
    using tl cur True by (simp_all add: itemsOf_def contents_def levelItems_def isTextRecord_def)
  with split_step_text [OF fr fs cur True sl sr un, of h] show ?thesis by blast
next
  case False
  with fit obtain rl rr where rl: "records (lefts loc) = Some rl" and rr: "records (rights loc) = Some rr"
    by (auto simp: fits_def records_append split: option.splits)
  have m: "lefts loc = map Rec rl" "rights loc = map Rec rr"
    using records_Some [OF rl] records_Some [OF rr] by simp_all
  let ?l = "Record (Suc (Suc (Suc h))) (name r) (text' r) rl False None None False None []"
  let ?r = "Record (Suc (Suc (Suc (Suc h)))) (name r) (text' r) rr False None None False None []"
  have "itemsOf ?l = levelItems f (lefts loc)" "itemsOf ?r = levelItems f (rights loc)"
    "name ?l = name r" "name ?r = name r"
    using m cur False by (simp_all add: itemsOf_def contents_def levelItems_def isTextRecord_def)
  with split_step_element [OF fr fs cur False rl rr un, of h] show ?thesis by blast
qed


lemma chain_kinds:
  assumes "chain fr c"
    and "strings c \<noteq> None \<Longrightarrow> strings c' \<noteq> None"
    and "records c \<noteq> None \<Longrightarrow> records c' \<noteq> None"
  shows "chain fr c'"
  using assms by (cases fr) (auto simp: fits_def split: option.splits content.splits)

lemma seam_snoc:
  "seam k ls rs = Some (ls1, rs1) \<Longrightarrow> seam (Suc k) ls rs = seam (Suc 0) ls1 rs1"
proof (induction k arbitrary: ls rs)
  case 0
  then show ?case by simp
next
  case (Suc k)
  from Suc.prems obtain l r rest where
    a: "arrayLast ls = Some (Rec l)" "rs = Rec r # rest" "seam k (itemsOf l) (itemsOf r) = Some (ls1, rs1)"
    by (auto split: option.splits content.splits list.splits)
  from Suc.IH [OF a(3)] a(1,2) show ?case by simp
qed

lemma levelItems_element:
  "after f = Some (Rec r) \<Longrightarrow> \<not> isTextRecord r \<Longrightarrow> levelItems f c = c"
  by (simp add: levelItems_def)

lemma halvesAt_made:
  assumes "after f = Some (Rec p)" "name l = name p" "name r = name p"
  shows "halvesAt f (lefts f @ [Rec l]) (Rec r # drop 1 (rights f)) = Some (l, r)"
  using assms by (simp add: halvesAt_def)

lemma splitLevels_not_stopped:
  "splitLevels j until loc ls rs \<Longrightarrow> \<not> stopsAt until loc"
  by (induction j arbitrary: ls rs) (auto split: option.splits)

lemma splitLevels_lift:
  assumes fr: "frames loc = fs @ [f]" and ne: "fs \<noteq> []"
    and f1: "frames loc1 = fs"
    and outer: "\<And>c. levelItems (last fs) c = c"
    and base: "splitLevels 0 until loc (lefts loc1) (rights loc1)"
    and n1: "\<not> stopsAt until loc1"
  shows "splitLevels j until loc1 ls rs \<Longrightarrow> splitLevels (Suc j) until loc ls rs"
proof (induction j arbitrary: ls rs)
  case 0
  have ix: "frames loc ! (length (frames loc) - Suc (Suc 0)) = frames loc1 ! (length (frames loc1) - 1)"
    using fr f1 ne by (simp add: nth_append)
  have lst: "frames loc1 ! (length (frames loc1) - 1) = last fs"
    using f1 ne by (simp add: last_conv_nth)
  from 0 obtain l r where
    h: "halvesAt (frames loc1 ! (length (frames loc1) - 1)) ls rs = Some (l, r)"
    and il0: "itemsOf l = levelItems (frames loc1 ! (length (frames loc1) - 1)) (lefts loc1)"
    and ir0: "itemsOf r = levelItems (frames loc1 ! (length (frames loc1) - 1)) (rights loc1)"
    by (auto split: option.splits)
  have il: "itemsOf l = lefts loc1" and ir: "itemsOf r = rights loc1"
    using il0 ir0 outer by (simp_all only: lst)
  have "Location (itemsOf l) (itemsOf r) (take (length (frames loc) - Suc 0) (frames loc)) = loc1"
    using il ir fr f1 by (cases loc1) simp
  then show ?case using h ix base n1 il ir by simp
next
  case (Suc i)
  have ix: "frames loc ! (length (frames loc) - Suc (Suc (Suc i)))
      = frames loc1 ! (length (frames loc1) - Suc (Suc i))"
    using fr f1 ne by (simp add: nth_append)
  have tk: "take (length (frames loc) - Suc (Suc i)) (frames loc)
      = take (length (frames loc1) - Suc i) (frames loc1)"
    using fr f1 by simp
  from Suc.prems obtain l r where
    h: "halvesAt (frames loc1 ! (length (frames loc1) - Suc (Suc i))) ls rs = Some (l, r)"
    and ns: "\<not> stopsAt until (Location (itemsOf l) (itemsOf r)
               (take (length (frames loc1) - Suc i) (frames loc1)))"
    and rec: "splitLevels i until loc1 (itemsOf l) (itemsOf r)"
    by (auto split: option.splits)
  from Suc.IH [OF rec] h ns ix tk show ?case by simp
qed

lemma split_chain:
  assumes "chain (rev (frames loc)) (lefts loc @ rights loc)" and "frames loc \<noteq> []"
  shows "\<exists>loc' h' k. split loc until h = Inr (loc', h')
           \<and> length (frames loc') + k = length (frames loc)
           \<and> seam k (lefts loc') (rights loc')
               = Some (if k = 0 then (lefts loc, rights loc)
                       else (levelItems (last (frames loc)) (lefts loc),
                             levelItems (last (frames loc)) (rights loc)))
           \<and> isSplitOf k until loc loc' \<and> stopsAt until loc'"
  using assms
proof (induction "length (frames loc)" arbitrary: loc h)
  case 0
  then show ?case by simp
next
  case (Suc n)
  from Suc.prems(2) obtain fs f where fr: "frames loc = fs @ [f]"
    by (cases "frames loc" rule: rev_cases) auto
  from Suc.prems(1) fr obtain r where
    ff: "frames f = fs" and cur: "after f = Some (Rec r)"
    and fit: "fits r (lefts loc @ rights loc)"
    and ch: "chain (rev fs) (lefts f @ rights f)"
    by (auto split: option.splits content.splits)
  have pk: "peek loc = Some f" using fr by (simp add: peek_def)
  show ?case
  proof (cases "fs = [] \<or> (case until of Some p \<Rightarrow> p | None \<Rightarrow> (\<lambda>l. False)) loc")
    case True
    then have "split loc until h = Inr (loc, h)"
      using pk ff by (subst split.simps) (auto simp: isRoot_def Let_def)
    moreover have "stopsAt until loc"
      using True pk ff by (auto simp: stopsAt_def isRoot_def)
    ultimately show ?thesis
      by (intro exI [of _ loc] exI [of _ h] exI [of _ 0]) (simp add: isSplitOf_def)
  next
    case False
    then have fne: "frames f \<noteq> []" and un: "\<not> (case until of Some p \<Rightarrow> p | None \<Rightarrow> (\<lambda>l. False)) loc"
      using ff by auto
    from split_step [OF fr fne cur fit un, of h] obtain l' r' h5 where
      st: "split loc until h
             = split (Location (lefts f @ [Rec l']) (Rec r' # drop 1 (rights f)) fs) until h5"
      and il: "itemsOf l' = levelItems f (lefts loc)"
      and ir: "itemsOf r' = levelItems f (rights loc)"
      and nl: "name l' = name r" and nr: "name r' = name r"
      by blast
    have nstop: "\<not> stopsAt until loc"
      using False pk ff by (auto simp: stopsAt_def isRoot_def)
    let ?loc1 = "Location (lefts f @ [Rec l']) (Rec r' # drop 1 (rights f)) fs"
    from cur obtain rest where rf: "rights f = Rec r # rest"
      by (auto simp: after_def split: list.splits)
    have ch1: "chain (rev (frames ?loc1)) (lefts ?loc1 @ rights ?loc1)"
    proof -
      have "chain (rev fs) (lefts f @ [Rec l'] @ Rec r' # drop 1 (rights f))"
      proof (rule chain_kinds [OF ch])
        assume "strings (lefts f @ rights f) \<noteq> None"
        then show "strings (lefts f @ [Rec l'] @ Rec r' # drop 1 (rights f)) \<noteq> None"
          using rf by (simp add: strings_append split: option.splits)
      next
        assume "records (lefts f @ rights f) \<noteq> None"
        then show "records (lefts f @ [Rec l'] @ Rec r' # drop 1 (rights f)) \<noteq> None"
          using rf by (simp add: records_append split: option.splits)
      qed
      then show ?thesis by simp
    qed
    have len: "n = length (frames ?loc1)" using Suc.hyps(2) fr by simp
    have ne1: "frames ?loc1 \<noteq> []" using False by simp
    from Suc.hyps(1) [OF len ch1 ne1, of h5] obtain loc' h' k where
      res: "split ?loc1 until h5 = Inr (loc', h')"
      and lk: "length (frames loc') + k = length (frames ?loc1)"
      and sm: "seam k (lefts loc') (rights loc')
               = Some (if k = 0 then (lefts ?loc1, rights ?loc1)
                       else (levelItems (last (frames ?loc1)) (lefts ?loc1),
                             levelItems (last (frames ?loc1)) (rights ?loc1)))"
      and sp: "isSplitOf k until ?loc1 loc'" and stp: "stopsAt until loc'"
      by blast
    have outer: "levelItems (last fs) c = c" for c
    proof -
      from False ch obtain g where g: "last fs = g" "rev fs = g # rev (butlast fs)"
        by (cases fs rule: rev_cases) auto
      with ch obtain rg where rg: "after g = Some (Rec rg)" "fits rg (lefts f @ rights f)"
        by (auto split: option.splits content.splits)
      moreover have "strings (lefts f @ rights f) = None"
        using rf by (simp add: strings_append split: option.splits)
      ultimately have "\<not> isTextRecord rg" by (auto simp: fits_def)
      with rg(1) g(1) show ?thesis by (simp add: levelItems_element)
    qed
    have sm1: "seam k (lefts loc') (rights loc') = Some (lefts ?loc1, rights ?loc1)"
      using sm outer by (simp split: if_splits)
    have "seam (Suc k) (lefts loc') (rights loc') = seam (Suc 0) (lefts ?loc1) (rights ?loc1)"
      by (rule seam_snoc [OF sm1])
    also have "\<dots> = Some (itemsOf l', itemsOf r')" by simp
    finally have "seam (Suc k) (lefts loc') (rights loc')
        = Some (levelItems (last (frames loc)) (lefts loc), levelItems (last (frames loc)) (rights loc))"
      using il ir fr by simp
    moreover have "length (frames loc') + Suc k = length (frames loc)" using lk fr by simp
    moreover have "isSplitOf (Suc k) until loc loc'"
    proof -
      have ixf: "frames loc ! (length (frames loc) - 1) = f" using fr by simp
      have base: "splitLevels 0 until loc (lefts ?loc1) (rights ?loc1)"
        using halvesAt_made [OF cur nl nr] nstop il ir ixf by simp
      have fl: "frames loc' = take (length (frames loc) - Suc k) (frames loc)"
      proof (cases k)
        case 0
        with sp fr show ?thesis by (simp add: isSplitOf_def)
      next
        case (Suc j)
        with sp fr show ?thesis by (simp add: isSplitOf_def)
      qed
      show ?thesis
      proof (cases k)
        case 0
        with sp have "loc' = ?loc1" by (simp add: isSplitOf_def)
        with base fl 0 show ?thesis by (simp add: isSplitOf_def)
      next
        case (Suc j)
        with sp have lv: "splitLevels j until ?loc1 (lefts loc') (rights loc')"
          by (simp add: isSplitOf_def)
        have n1: "\<not> stopsAt until ?loc1"
          by (rule splitLevels_not_stopped [OF lv])
        have "splitLevels (Suc j) until loc (lefts loc') (rights loc')"
          by (rule splitLevels_lift [OF fr _ _ outer base n1 lv]) (use False in simp_all)
        with fl Suc show ?thesis by (simp add: isSplitOf_def)
      qed
    qed
    ultimately show ?thesis using st res stp
      by (intro exI [of _ loc'] exI [of _ h'] exI [of _ "Suc k"]) simp
  qed
qed


lemma recordsIn_simps [simp]:
  "recordsIn [] = []" "recordsIn (Rec r # c) = r # recordsIn c" "recordsIn (Str t # c) = recordsIn c"
  by (simp_all add: recordsIn_def)

lemma textIn_simps [simp]:
  "textIn [] = []" "textIn (Rec r # c) = textIn c" "textIn (Str t # c) = t @ textIn c"
  by (simp_all add: textIn_def)

lemma levelItems_same:
  assumes "after f = Some (Rec r)" "fits r (a @ b)"
  shows "recordsIn (levelItems f a) = recordsIn a \<and> textIn (levelItems f a) = textIn a
       \<and> recordsIn (levelItems f b) = recordsIn b \<and> textIn (levelItems f b) = textIn b"
proof (cases "isTextRecord r")
  case True
  with assms(2) obtain sa sb where "strings a = Some sa" "strings b = Some sb"
    by (auto simp: fits_def strings_append split: option.splits)
  then have "a = map Str sa" "b = map Str sb" by (simp_all add: strings_Some)
  then show ?thesis using assms(1) True
    by (simp add: levelItems_def)
next
  case False
  then show ?thesis using assms(1) by (simp add: levelItems_def)
qed

text \<open>
  C1. Let \<open>loc\<close> be a Location that satisfies the invariant of the data model and has
  at least one frame. Then \<open>split\<close> returns a Location for every \<open>until\<close> predicate. It
  has split exactly \<open>k\<close> levels, where \<open>k\<close> is the number of steps up to the first
  Location at which the stop condition holds (its top frame is the root, or \<open>until\<close>
  accepts it): the condition holds at the result and at none of the Locations before it,
  and for \<open>k = 0\<close> the result is \<open>loc\<close> itself. At each of the \<open>k\<close> levels the ancestor
  at the cursor of that level's frame is replaced by two Records that bear its name: the
  \<open>lefts\<close> of the level end with the left half, after all the \<open>lefts\<close> of the frame, and
  its \<open>rights\<close> begin with the right half, before all the \<open>rights\<close> of the frame but the
  ancestor. The left half holds the \<open>lefts\<close> of the level below and the right half its
  \<open>rights\<close>; at the lowest level these are the original \<open>lefts\<close> and \<open>rights\<close>. Hence
  descending \<open>k\<close> levels along the split point of the result one finds exactly the
  Records and the text of the original \<open>lefts\<close> and of the original \<open>rights\<close>, in order:
  nothing is lost or duplicated.
\<close>

theorem split_preserves_content:
  assumes "wellFormed loc" and "frames loc \<noteq> []"
  shows "\<exists>loc' h' k ls rs.
           split loc until h = Inr (loc', h')
         \<and> length (frames loc') + k = length (frames loc)
         \<and> seam k (lefts loc') (rights loc') = Some (ls, rs)
         \<and> recordsIn ls = recordsIn (lefts loc) \<and> textIn ls = textIn (lefts loc)
         \<and> recordsIn rs = recordsIn (rights loc) \<and> textIn rs = textIn (rights loc)
         \<and> isSplitOf k until loc loc' \<and> stopsAt until loc'"
proof -
  from assms(2) obtain fs f where fr: "frames loc = fs @ [f]"
    by (cases "frames loc" rule: rev_cases) auto
  with assms(1) obtain r where cur: "after f = Some (Rec r)" and fit: "fits r (lefts loc @ rights loc)"
    by (auto simp: wellFormed_def split: option.splits content.splits)
  from split_chain [of loc until h] assms obtain loc' h' k where
    res: "split loc until h = Inr (loc', h')"
    and lk: "length (frames loc') + k = length (frames loc)"
    and sm: "seam k (lefts loc') (rights loc')
               = Some (if k = 0 then (lefts loc, rights loc)
                       else (levelItems (last (frames loc)) (lefts loc),
                             levelItems (last (frames loc)) (rights loc)))"
    and sp: "isSplitOf k until loc loc'" and stp: "stopsAt until loc'"
    unfolding wellFormed_def by blast
  show ?thesis
  proof (cases "k = 0")
    case True
    with res lk sm sp stp show ?thesis by auto
  next
    case False
    with sm fr have "seam k (lefts loc') (rights loc')
               = Some (levelItems f (lefts loc), levelItems f (rights loc))" by simp
    with res lk sp stp levelItems_same [OF cur fit] show ?thesis by blast
  qed
qed

text \<open>
  The Location between \<open>ab\<close> and \<open><b/>\<close> in \<open><div><i/><p>ab<b/></p><u/></div>\<close>: the
  paragraph is split into two paragraphs, which stand between \<open><i/>\<close> and \<open><u/>\<close>.
\<close>

lemma split_example:
  "split (Location [Rec (Record 4 ''#text'' ''ab'' [] False None None False None [])] [Rec (Record 5 ''B'' [] [] False None None False None [])]
      [Location [] [Rec (Record 1 ''DIV'' []
          [Record 2 ''I'' [] [] False None None False None [],
           Record 3 ''P'' []
            [Record 4 ''#text'' ''ab'' [] False None None False None [],
             Record 5 ''B'' [] [] False None None False None []]
            False None None False None [],
           Record 6 ''U'' [] [] False None None False None []]
          False None (None :: unit option) False None [])] [],
       Location [Rec (Record 2 ''I'' [] [] False None None False None [])]
         [Rec (Record 3 ''P'' []
            [Record 4 ''#text'' ''ab'' [] False None None False None [],
             Record 5 ''B'' [] [] False None None False None []]
            False None None False None []),
          Rec (Record 6 ''U'' [] [] False None None False None [])]
         [Location [] [Rec (Record 1 ''DIV'' []
          [Record 2 ''I'' [] [] False None None False None [],
           Record 3 ''P'' []
            [Record 4 ''#text'' ''ab'' [] False None None False None [],
             Record 5 ''B'' [] [] False None None False None []]
            False None None False None [],
           Record 6 ''U'' [] [] False None None False None []]
          False None (None :: unit option) False None [])] []]]) None 10
   = Inr ((Location
      [Rec (Record 2 ''I'' [] [] False None None False None []),
       Rec (Record 13 ''P'' [] [Record 4 ''#text'' ''ab'' [] False None None False None []] False None None False None [])]
      [Rec (Record 14 ''P'' [] [Record 5 ''B'' [] [] False None None False None []] False None None False None []),
       Rec (Record 6 ''U'' [] [] False None None False None [])]
      [Location [] [Rec (Record 1 ''DIV'' []
          [Record 2 ''I'' [] [] False None None False None [],
           Record 3 ''P'' []
            [Record 4 ''#text'' ''ab'' [] False None None False None [],
             Record 5 ''B'' [] [] False None None False None []]
            False None None False None [],
           Record 6 ''U'' [] [] False None None False None []]
          False None (None :: unit option) False None [])] []]), 15)"
  by (simp add: split.simps peek_def arrayLast_def isRoot_def up_def after_def Let_def
      setContents_def setChildren_def isTextRecord_def isTextLocation_def clone_def
      cloneShallow_def slice_def sliceFrom_def relativeIndex_def)

theorem split_preserves_content_witness:
  "split (Location [Rec (Record 4 ''#text'' ''ab'' [] False None None False None [])] [Rec (Record 5 ''B'' [] [] False None None False None [])]
      [Location [] [Rec (Record 1 ''DIV'' []
          [Record 2 ''I'' [] [] False None None False None [],
           Record 3 ''P'' []
            [Record 4 ''#text'' ''ab'' [] False None None False None [],
             Record 5 ''B'' [] [] False None None False None []]
            False None None False None [],
           Record 6 ''U'' [] [] False None None False None []]
          False None (None :: unit option) False None [])] [],
       Location [Rec (Record 2 ''I'' [] [] False None None False None [])]
         [Rec (Record 3 ''P'' []
            [Record 4 ''#text'' ''ab'' [] False None None False None [],
             Record 5 ''B'' [] [] False None None False None []]
            False None None False None []),
          Rec (Record 6 ''U'' [] [] False None None False None [])]
         [Location [] [Rec (Record 1 ''DIV'' []
          [Record 2 ''I'' [] [] False None None False None [],
           Record 3 ''P'' []
            [Record 4 ''#text'' ''ab'' [] False None None False None [],
             Record 5 ''B'' [] [] False None None False None []]
            False None None False None [],
           Record 6 ''U'' [] [] False None None False None []]
          False None (None :: unit option) False None [])] []]]) None 10
   = Inr ((Location
      [Rec (Record 2 ''I'' [] [] False None None False None []),
       Rec (Record 13 ''P'' [] [Record 4 ''#text'' ''ab'' [] False None None False None []] False None None False None [])]
      [Rec (Record 14 ''P'' [] [Record 5 ''B'' [] [] False None None False None []] False None None False None []),
       Rec (Record 6 ''U'' [] [] False None None False None [])]
      [Location [] [Rec (Record 1 ''DIV'' []
          [Record 2 ''I'' [] [] False None None False None [],
           Record 3 ''P'' []
            [Record 4 ''#text'' ''ab'' [] False None None False None [],
             Record 5 ''B'' [] [] False None None False None []]
            False None None False None [],
           Record 6 ''U'' [] [] False None None False None []]
          False None (None :: unit option) False None [])] []]), 15)
   \<and> isSplitOf (Suc 0) None (Location [Rec (Record 4 ''#text'' ''ab'' [] False None None False None [])] [Rec (Record 5 ''B'' [] [] False None None False None [])]
      [Location [] [Rec (Record 1 ''DIV'' []
          [Record 2 ''I'' [] [] False None None False None [],
           Record 3 ''P'' []
            [Record 4 ''#text'' ''ab'' [] False None None False None [],
             Record 5 ''B'' [] [] False None None False None []]
            False None None False None [],
           Record 6 ''U'' [] [] False None None False None []]
          False None (None :: unit option) False None [])] [],
       Location [Rec (Record 2 ''I'' [] [] False None None False None [])]
         [Rec (Record 3 ''P'' []
            [Record 4 ''#text'' ''ab'' [] False None None False None [],
             Record 5 ''B'' [] [] False None None False None []]
            False None None False None []),
          Rec (Record 6 ''U'' [] [] False None None False None [])]
         [Location [] [Rec (Record 1 ''DIV'' []
          [Record 2 ''I'' [] [] False None None False None [],
           Record 3 ''P'' []
            [Record 4 ''#text'' ''ab'' [] False None None False None [],
             Record 5 ''B'' [] [] False None None False None []]
            False None None False None [],
           Record 6 ''U'' [] [] False None None False None []]
          False None (None :: unit option) False None [])] []]])
       (Location
      [Rec (Record 2 ''I'' [] [] False None None False None []),
       Rec (Record 13 ''P'' [] [Record 4 ''#text'' ''ab'' [] False None None False None []] False None None False None [])]
      [Rec (Record 14 ''P'' [] [Record 5 ''B'' [] [] False None None False None []] False None None False None []),
       Rec (Record 6 ''U'' [] [] False None None False None [])]
      [Location [] [Rec (Record 1 ''DIV'' []
          [Record 2 ''I'' [] [] False None None False None [],
           Record 3 ''P'' []
            [Record 4 ''#text'' ''ab'' [] False None None False None [],
             Record 5 ''B'' [] [] False None None False None []]
            False None None False None [],
           Record 6 ''U'' [] [] False None None False None []]
          False None (None :: unit option) False None [])] []])
   \<and> stopsAt None (Location
      [Rec (Record 2 ''I'' [] [] False None None False None []),
       Rec (Record 13 ''P'' [] [Record 4 ''#text'' ''ab'' [] False None None False None []] False None None False None [])]
      [Rec (Record 14 ''P'' [] [Record 5 ''B'' [] [] False None None False None []] False None None False None []),
       Rec (Record 6 ''U'' [] [] False None None False None [])]
      [Location [] [Rec (Record 1 ''DIV'' []
          [Record 2 ''I'' [] [] False None None False None [],
           Record 3 ''P'' []
            [Record 4 ''#text'' ''ab'' [] False None None False None [],
             Record 5 ''B'' [] [] False None None False None []]
            False None None False None [],
           Record 6 ''U'' [] [] False None None False None []]
          False None (None :: unit option) False None [])] []])"
proof -
  have w: "wellFormed (Location [Rec (Record 4 ''#text'' ''ab'' [] False None None False None [])] [Rec (Record 5 ''B'' [] [] False None None False None [])]
      [Location [] [Rec (Record 1 ''DIV'' []
          [Record 2 ''I'' [] [] False None None False None [],
           Record 3 ''P'' []
            [Record 4 ''#text'' ''ab'' [] False None None False None [],
             Record 5 ''B'' [] [] False None None False None []]
            False None None False None [],
           Record 6 ''U'' [] [] False None None False None []]
          False None (None :: unit option) False None [])] [],
       Location [Rec (Record 2 ''I'' [] [] False None None False None [])]
         [Rec (Record 3 ''P'' []
            [Record 4 ''#text'' ''ab'' [] False None None False None [],
             Record 5 ''B'' [] [] False None None False None []]
            False None None False None []),
          Rec (Record 6 ''U'' [] [] False None None False None [])]
         [Location [] [Rec (Record 1 ''DIV'' []
          [Record 2 ''I'' [] [] False None None False None [],
           Record 3 ''P'' []
            [Record 4 ''#text'' ''ab'' [] False None None False None [],
             Record 5 ''B'' [] [] False None None False None []]
            False None None False None [],
           Record 6 ''U'' [] [] False None None False None []]
          False None (None :: unit option) False None [])] []]])"
    by (simp add: wellFormed_def fits_def isTextRecord_def after_def)
  have f: "frames (Location [Rec (Record 4 ''#text'' ''ab'' [] False None None False None [])] [Rec (Record 5 ''B'' [] [] False None None False None [])]
      [Location [] [Rec (Record 1 ''DIV'' []
          [Record 2 ''I'' [] [] False None None False None [],
           Record 3 ''P'' []
            [Record 4 ''#text'' ''ab'' [] False None None False None [],
             Record 5 ''B'' [] [] False None None False None []]
            False None None False None [],
           Record 6 ''U'' [] [] False None None False None []]
          False None (None :: unit option) False None [])] [],
       Location [Rec (Record 2 ''I'' [] [] False None None False None [])]
         [Rec (Record 3 ''P'' []
            [Record 4 ''#text'' ''ab'' [] False None None False None [],
             Record 5 ''B'' [] [] False None None False None []]
            False None None False None []),
          Rec (Record 6 ''U'' [] [] False None None False None [])]
         [Location [] [Rec (Record 1 ''DIV'' []
          [Record 2 ''I'' [] [] False None None False None [],
           Record 3 ''P'' []
            [Record 4 ''#text'' ''ab'' [] False None None False None [],
             Record 5 ''B'' [] [] False None None False None []]
            False None None False None [],
           Record 6 ''U'' [] [] False None None False None []]
          False None (None :: unit option) False None [])] []]]) \<noteq> []"
    by simp
  from split_preserves_content [OF w f, of None 10] obtain loc' h' k where
    r: "split (Location [Rec (Record 4 ''#text'' ''ab'' [] False None None False None [])] [Rec (Record 5 ''B'' [] [] False None None False None [])]
      [Location [] [Rec (Record 1 ''DIV'' []
          [Record 2 ''I'' [] [] False None None False None [],
           Record 3 ''P'' []
            [Record 4 ''#text'' ''ab'' [] False None None False None [],
             Record 5 ''B'' [] [] False None None False None []]
            False None None False None [],
           Record 6 ''U'' [] [] False None None False None []]
          False None (None :: unit option) False None [])] [],
       Location [Rec (Record 2 ''I'' [] [] False None None False None [])]
         [Rec (Record 3 ''P'' []
            [Record 4 ''#text'' ''ab'' [] False None None False None [],
             Record 5 ''B'' [] [] False None None False None []]
            False None None False None []),
          Rec (Record 6 ''U'' [] [] False None None False None [])]
         [Location [] [Rec (Record 1 ''DIV'' []
          [Record 2 ''I'' [] [] False None None False None [],
           Record 3 ''P'' []
            [Record 4 ''#text'' ''ab'' [] False None None False None [],
             Record 5 ''B'' [] [] False None None False None []]
            False None None False None [],
           Record 6 ''U'' [] [] False None None False None []]
          False None (None :: unit option) False None [])] []]]) None 10 = Inr (loc', h')"
    and l: "length (frames loc') + k = length (frames (Location [Rec (Record 4 ''#text'' ''ab'' [] False None None False None [])] [Rec (Record 5 ''B'' [] [] False None None False None [])]
      [Location [] [Rec (Record 1 ''DIV'' []
          [Record 2 ''I'' [] [] False None None False None [],
           Record 3 ''P'' []
            [Record 4 ''#text'' ''ab'' [] False None None False None [],
             Record 5 ''B'' [] [] False None None False None []]
            False None None False None [],
           Record 6 ''U'' [] [] False None None False None []]
          False None (None :: unit option) False None [])] [],
       Location [Rec (Record 2 ''I'' [] [] False None None False None [])]
         [Rec (Record 3 ''P'' []
            [Record 4 ''#text'' ''ab'' [] False None None False None [],
             Record 5 ''B'' [] [] False None None False None []]
            False None None False None []),
          Rec (Record 6 ''U'' [] [] False None None False None [])]
         [Location [] [Rec (Record 1 ''DIV'' []
          [Record 2 ''I'' [] [] False None None False None [],
           Record 3 ''P'' []
            [Record 4 ''#text'' ''ab'' [] False None None False None [],
             Record 5 ''B'' [] [] False None None False None []]
            False None None False None [],
           Record 6 ''U'' [] [] False None None False None []]
          False None (None :: unit option) False None [])] []]]))"
    and s: "isSplitOf k None (Location [Rec (Record 4 ''#text'' ''ab'' [] False None None False None [])] [Rec (Record 5 ''B'' [] [] False None None False None [])]
      [Location [] [Rec (Record 1 ''DIV'' []
          [Record 2 ''I'' [] [] False None None False None [],
           Record 3 ''P'' []
            [Record 4 ''#text'' ''ab'' [] False None None False None [],
             Record 5 ''B'' [] [] False None None False None []]
            False None None False None [],
           Record 6 ''U'' [] [] False None None False None []]
          False None (None :: unit option) False None [])] [],
       Location [Rec (Record 2 ''I'' [] [] False None None False None [])]
         [Rec (Record 3 ''P'' []
            [Record 4 ''#text'' ''ab'' [] False None None False None [],
             Record 5 ''B'' [] [] False None None False None []]
            False None None False None []),
          Rec (Record 6 ''U'' [] [] False None None False None [])]
         [Location [] [Rec (Record 1 ''DIV'' []
          [Record 2 ''I'' [] [] False None None False None [],
           Record 3 ''P'' []
            [Record 4 ''#text'' ''ab'' [] False None None False None [],
             Record 5 ''B'' [] [] False None None False None []]
            False None None False None [],
           Record 6 ''U'' [] [] False None None False None []]
          False None (None :: unit option) False None [])] []]]) loc'" and t: "stopsAt None loc'"
    by blast
  from r [unfolded split_example] have e: "loc' = (Location
      [Rec (Record 2 ''I'' [] [] False None None False None []),
       Rec (Record 13 ''P'' [] [Record 4 ''#text'' ''ab'' [] False None None False None []] False None None False None [])]
      [Rec (Record 14 ''P'' [] [Record 5 ''B'' [] [] False None None False None []] False None None False None []),
       Rec (Record 6 ''U'' [] [] False None None False None [])]
      [Location [] [Rec (Record 1 ''DIV'' []
          [Record 2 ''I'' [] [] False None None False None [],
           Record 3 ''P'' []
            [Record 4 ''#text'' ''ab'' [] False None None False None [],
             Record 5 ''B'' [] [] False None None False None []]
            False None None False None [],
           Record 6 ''U'' [] [] False None None False None []]
          False None (None :: unit option) False None [])] []])"
    by simp
  with l have "k = Suc 0" by simp
  with s t e split_example show ?thesis by simp
qed

section \<open>Detection of fragmented text\<close>

lemma upper_q [simp]: "map toUpperCase ''q'' = ''Q''"
  by code_simp

lemma upper_code [simp]: "map toUpperCase ''code'' = ''CODE''"
  by code_simp

lemma FragmentedText_wrapper:
  assumes "FragmentedText loc h = Inr (loc', h')"
  shows "\<exists>frame w. peek loc' = Some frame \<and> after frame = Some (Rec w)
           \<and> isFragmentedTextProp w \<and> isFragmentedText w"
  using assms
  using upper_q
  by (auto simp: FragmentedText_def Let_def createElement_def down_def replace_def splice'_def
      after_def contents_def isTextRecord_def tagFragmentedText_def peek_def isFragmentedText_def
      split: sum.splits prod.splits option.splits content.splits if_splits)

lemma skipMarkers_stays:
  "after loc = Some (Rec r) \<Longrightarrow> \<not> isMarker r \<Longrightarrow> skipMarkers loc = Inr loc"
  by (subst skipMarkers.simps) simp

lemma traverse_fragment:
  assumes "after cur = Some (Rec q)" "name q = ''Q''" "\<not> isMarker q"
  shows "traverse cur (offset # trail) h
           = (case locationInFragment cur offset h of
                Inl e \<Rightarrow> Inl e
              | Inr (l2, h2) \<Rightarrow> traverse l2 trail h2)"
  using assms by (simp add: skipMarkers_stays isTextRecord_def isFragmentedText_def)

lemma updateMutate_plain_q:
  assumes "name q = ''Q''" "\<not> isMarker q" "original q = None"
  shows "updateMutate q tr paths h
           = Inr ([Record (Suc h) ''#text'' (concat (map text' (filter isTextRecord (children q))))
                     [] False None None False None []], paths, Suc (Suc h))"
  using assms
  by (simp add: updateMutate_def isFragmentedText_def defragmentText_def foldl_snoc_texts
      createRecord_text)


lemma textRecords_map_Rec: "textRecords (map Rec rs) = Inr (filter isTextRecord rs)"
  by (induction rs) auto

lemma walkPostOrderLoop_void_under_q:
  assumes r: "rights vl = Rec record # rest"
    and v: "name record = ''#text'' \<or> isMarker record \<or> isVoidNode record"
    and f: "frames vl = fs @ [frame]" and c: "after frame = Some (Rec q)" and q: "name q = ''Q''"
    and l: "lefts vl = map Rec rl" and rr: "rest = map Rec rs"
  shows "walkPostOrderLoop isVoidNode mutate vl trail s h
           = (case mutate record (trail @ [fragmentsLength (filter isTextRecord rl)]) s (Suc h) of
                Inl e \<Rightarrow> Some (Inl e)
              | Inr (replacements, s2, h2) \<Rightarrow>
                  walkPostOrderLoop isVoidNode mutate
                    (jump (replace vl (Many (map Rec replacements))) (length replacements))
                    trail s2 h2)"
proof -
  have nt: "\<not> isTextRecord q" using q by (simp add: isTextRecord_def)
  have rs: "records (lefts vl @ rights vl) = Some (rl @ record # rs)"
    using r l rr by (simp add: records_append)
  note u = up_element [OF f c nt rs, of h]
  from v have isv: "isVoid isVoidNode vl = Inr True"
    using r by (auto simp: isVoid_def after_def)
  show ?thesis
    using r isv u l q
    by (subst walkPostOrderLoop.simps)
      (simp add: isAtEnd_def after_def isFragmentedText_def textRecords_map_Rec)
qed

text \<open>
  C10. \<open>isFragmentedText\<close> holds exactly when the name of the record is \<open>Q\<close>. The
  wrapper that \<open>FragmentedText\<close> leaves at the cursor of the innermost frame carries the
  \<open>isFragmentedText\<close> flag and is recognised. An ordinary element named \<open>Q\<close> that
  carries neither the flag nor an \<open>original\<close> is recognised as well, and is treated as
  a wrapper: \<open>traverse\<close> resolves the next offset of a path through
  \<open>locationInFragment\<close>; the \<open>mutate\<close> function of \<open>update\<close> replaces the element by a
  new Text record that holds the concatenated text of its Text children; and the
  post-order walk hands \<open>mutate\<close>, for a void child of the element, the length of the
  text to its left as the offset instead of the number of siblings to its left.
\<close>

theorem fragmentedText_detected_by_name:
  "(isFragmentedText record \<longleftrightarrow> name record = ''Q'')
   \<and> (\<forall>loc' h'. FragmentedText loc h = Inr (loc', h') \<longrightarrow>
         (\<exists>frame w. peek loc' = Some frame \<and> after frame = Some (Rec w)
            \<and> isFragmentedTextProp w \<and> isFragmentedText w))
   \<and> (name q = ''Q'' \<and> \<not> isFragmentedTextProp q \<and> original q = None \<and> \<not> isMarker q \<longrightarrow>
         isFragmentedText q
       \<and> (after cur = Some (Rec q) \<longrightarrow>
            traverse cur (offset # path) h
              = (case locationInFragment cur offset h of
                   Inl e \<Rightarrow> Inl e
                 | Inr (l2, h2) \<Rightarrow> traverse l2 path h2))
       \<and> updateMutate q trail paths h
            = Inr ([Record (Suc h) ''#text''
                      (concat (map text' (filter isTextRecord (children q))))
                      [] False None None False None []], paths, Suc (Suc h))
       \<and> (rights vl = Rec child # map Rec rs \<and> lefts vl = map Rec rl
            \<and> (name child = ''#text'' \<or> isMarker child \<or> isVoidNode child)
            \<and> frames vl = fs @ [frame] \<and> after frame = Some (Rec q) \<longrightarrow>
            walkPostOrderLoop isVoidNode mutate vl trail s h
              = (case mutate child (trail @ [fragmentsLength (filter isTextRecord rl)]) s (Suc h) of
                   Inl e \<Rightarrow> Some (Inl e)
                 | Inr (replacements, s2, h2) \<Rightarrow>
                     walkPostOrderLoop isVoidNode mutate
                       (jump (replace vl (Many (map Rec replacements))) (length replacements))
                       trail s2 h2)))"
proof (intro conjI allI impI)
  show "isFragmentedText record \<longleftrightarrow> name record = ''Q''"
    by (auto simp: isFragmentedText_def)
next
  fix loc' h'
  assume "FragmentedText loc h = Inr (loc', h')"
  then show "\<exists>frame w. peek loc' = Some frame \<and> after frame = Some (Rec w)
            \<and> isFragmentedTextProp w \<and> isFragmentedText w"
    by (rule FragmentedText_wrapper)
next
  assume a: "name q = ''Q'' \<and> \<not> isFragmentedTextProp q \<and> original q = None \<and> \<not> isMarker q"
  then show "isFragmentedText q" by (simp add: isFragmentedText_def)
  from a show "updateMutate q trail paths h
            = Inr ([Record (Suc h) ''#text''
                      (concat (map text' (filter isTextRecord (children q))))
                      [] False None None False None []], paths, Suc (Suc h))"
    by (simp add: updateMutate_plain_q)
  {
    assume "after cur = Some (Rec q)"
    with a show "traverse cur (offset # path) h
              = (case locationInFragment cur offset h of
                   Inl e \<Rightarrow> Inl e
                 | Inr (l2, h2) \<Rightarrow> traverse l2 path h2)"
      using traverse_fragment [of cur q offset path h] by simp
  }
  {
    assume b: "rights vl = Rec child # map Rec rs \<and> lefts vl = map Rec rl
            \<and> (name child = ''#text'' \<or> isMarker child \<or> isVoidNode child)
            \<and> frames vl = fs @ [frame] \<and> after frame = Some (Rec q)"
    show "walkPostOrderLoop isVoidNode mutate vl trail s h
              = (case mutate child (trail @ [fragmentsLength (filter isTextRecord rl)]) s (Suc h) of
                   Inl e \<Rightarrow> Some (Inl e)
                 | Inr (replacements, s2, h2) \<Rightarrow>
                     walkPostOrderLoop isVoidNode mutate
                       (jump (replace vl (Many (map Rec replacements))) (length replacements))
                       trail s2 h2)"
      using a b by (intro walkPostOrderLoop_void_under_q [where q = q and rs = rs]) auto
  }
qed


theorem fragmentedText_detected_by_name_witness:
  "isFragmentedText (Record 2 ''Q'' []
        [Record 3 ''#text'' ''ab'' [] False None None False None [],
         Record 4 ''B'' [] [] False None None False None [],
         Record 5 ''#text'' ''cd'' [] False None None False None []]
        False None (None :: unit option) False None [])
   \<and> (\<exists>loc' h' frame w.
         FragmentedText (Location [Str ''a''] [Str ''b'']
        [Location [] [Rec (Record 1 ''DIV'' []
           [Record 2 ''#text'' ''ab'' [] False None None False None []]
           False None (None :: unit option) False None [])] [],
         Location [] [Rec (Record 2 ''#text'' ''ab'' [] False None None False None [])]
           [Location [] [Rec (Record 1 ''DIV'' []
              [Record 2 ''#text'' ''ab'' [] False None None False None []]
              False None (None :: unit option) False None [])] []]]) 10 = Inr (loc', h')
       \<and> peek loc' = Some frame \<and> after frame = Some (Rec w)
       \<and> isFragmentedTextProp w \<and> isFragmentedText w)
   \<and> updateMutate (Record 2 ''Q'' []
        [Record 3 ''#text'' ''ab'' [] False None None False None [],
         Record 4 ''B'' [] [] False None None False None [],
         Record 5 ''#text'' ''cd'' [] False None None False None []]
        False None (None :: unit option) False None []) [0] [] 10
       = Inr ([Record 11 ''#text'' ''abcd'' [] False None None False None []], [], 12)"
proof -
  have ft: "FragmentedText (Location [Str ''a''] [Str ''b'']
        [Location [] [Rec (Record 1 ''DIV'' []
           [Record 2 ''#text'' ''ab'' [] False None None False None []]
           False None (None :: unit option) False None [])] [],
         Location [] [Rec (Record 2 ''#text'' ''ab'' [] False None None False None [])]
           [Location [] [Rec (Record 1 ''DIV'' []
              [Record 2 ''#text'' ''ab'' [] False None None False None []]
              False None (None :: unit option) False None [])] []]]) 10 = Inr (Location
        [Rec (Record 13 ''#text'' ''a'' [] False None None False None [])]
        [Rec (Record 15 ''#text'' ''b'' [] False None None False None [])]
        [Location [] [Rec (Record 1 ''DIV'' []
           [Record 2 ''#text'' ''ab'' [] False None None False None []]
           False None (None :: unit option) False None [])] [],
         Location []
           [Rec (Record 11 ''Q'' [] [] False None None True
              (Some (Record 10 ''#text'' ''ab'' [] False None None False None [])) [])]
           [Location [] [Rec (Record 1 ''DIV'' []
              [Record 2 ''#text'' ''ab'' [] False None None False None []]
              False None (None :: unit option) False None [])] []]], 16)"
    by (simp add: FragmentedText_def up_def arrayLast_def after_def setContents_def
        isTextRecord_def setText_def createElement_def tagFragmentedText_def createRecord_def
        createTextNode_def down_def replace_def splice'_def contents_def Let_def
        slice_def sliceFrom_def relativeIndex_def upper_q [simplified])
  note t = fragmentedText_detected_by_name
      [of "Record 2 ''Q'' []
        [Record 3 ''#text'' ''ab'' [] False None None False None [],
         Record 4 ''B'' [] [] False None None False None [],
         Record 5 ''#text'' ''cd'' [] False None None False None []]
        False None (None :: unit option) False None []"
        "Location [Str ''a''] [Str ''b'']
        [Location [] [Rec (Record 1 ''DIV'' []
           [Record 2 ''#text'' ''ab'' [] False None None False None []]
           False None (None :: unit option) False None [])] [],
         Location [] [Rec (Record 2 ''#text'' ''ab'' [] False None None False None [])]
           [Location [] [Rec (Record 1 ''DIV'' []
              [Record 2 ''#text'' ''ab'' [] False None None False None []]
              False None (None :: unit option) False None [])] []]]" 10
        "Record 2 ''Q'' []
        [Record 3 ''#text'' ''ab'' [] False None None False None [],
         Record 4 ''B'' [] [] False None None False None [],
         Record 5 ''#text'' ''cd'' [] False None None False None []]
        False None (None :: unit option) False None []" _ _ _ "[0]" "[]"]
  have plain: "name (Record 2 ''Q'' []
        [Record 3 ''#text'' ''ab'' [] False None None False None [],
         Record 4 ''B'' [] [] False None None False None [],
         Record 5 ''#text'' ''cd'' [] False None None False None []]
        False None (None :: unit option) False None []) = ''Q''
      \<and> \<not> isFragmentedTextProp (Record 2 ''Q'' []
        [Record 3 ''#text'' ''ab'' [] False None None False None [],
         Record 4 ''B'' [] [] False None None False None [],
         Record 5 ''#text'' ''cd'' [] False None None False None []]
        False None (None :: unit option) False None [])
      \<and> original (Record 2 ''Q'' []
        [Record 3 ''#text'' ''ab'' [] False None None False None [],
         Record 4 ''B'' [] [] False None None False None [],
         Record 5 ''#text'' ''cd'' [] False None None False None []]
        False None (None :: unit option) False None []) = None
      \<and> \<not> isMarker (Record 2 ''Q'' []
        [Record 3 ''#text'' ''ab'' [] False None None False None [],
         Record 4 ''B'' [] [] False None None False None [],
         Record 5 ''#text'' ''cd'' [] False None None False None []]
        False None (None :: unit option) False None [])"
    by (simp add: isMarker_def)
  note w = t [THEN conjunct2, THEN conjunct1, rule_format, OF ft]
  note p = t [THEN conjunct2, THEN conjunct2, THEN mp, OF plain]
  note m = p [THEN conjunct2, THEN conjunct2, THEN conjunct1]
  show ?thesis
    using p [THEN conjunct1] w m ft by (simp add: isTextRecord_def)
qed

text \<open>
  A run of the update walk over \<open><div><q>ab<b></b>cd</q></div>\<close>, where \<open>q\<close> is an
  ordinary element: the walk returns \<open><div>abcd</div>\<close>.
\<close>

lemma update_plain_q_example:
  "updateWalk (\<lambda>r. False)
     (Location []
        [Rec (Record 1 ''DIV'' []
           [Record 2 ''Q'' []
              [Record 3 ''#text'' ''ab'' [] False None None False None [],
               Record 4 ''B'' [] [] False None None False None [],
               Record 5 ''#text'' ''cd'' [] False None None False None []]
              False None None False None []]
           False None (None :: unit option) False None [])] []) 10
   = Some (Inr (Location []
        [Rec (Record 17 ''DIV'' []
           [Record 16 ''#text'' ''abcd'' [] False None None False None []]
           False None None False None [])] [], [], 18))"
  by (simp add: updateWalk_def walkPostOrder_def root_def walkPostOrderLoop.simps
      isAtEnd_def isVoid_def after_def isMarker_def isRoot_def down_def contents_def
      isTextRecord_def up_def arrayLast_def setContents_def setChildren_def
      isFragmentedText_def fragmentsLength_def updateMutate_def setStyle_def jump_def
      replace_def splice'_def next'_def slice_def sliceFrom_def relativeIndex_def
      defragmentText_def createRecord_def createTextNode_def setText_def Let_def)

section \<open>The post-order walk with the identity mutation\<close>

lemma weight_children: "sum_list (map weight (children r)) < weight r"
  by (cases r) simp

lemma shape_children: "shape r = Node (name r) (text' r) (map shape (children r))"
  by (cases r) simp

lemma isVoid_Rec:
  "isVoid isVoidNode (Location ls (Rec r # rs) fs) = Inr (voidRecord isVoidNode r)"
  by (simp add: isVoid_def after_def voidRecord_def)

lemma next_one:
  "next' (Location ls (x # rs) fs) (Some 1) = Location (ls @ [x]) rs fs"
  by (simp add: next'_def slice_def sliceFrom_def relativeIndex_def)

lemma next_default:
  "next' (Location ls (x # rs) fs) None = Location (ls @ [x]) rs fs"
  by (simp add: next'_def slice_def sliceFrom_def relativeIndex_def)

lemma replace_same:
  "jump (replace (Location ls (x # rs) fs) (Many [Rec r])) (Suc 0)
     = Location (ls @ [Rec r]) rs fs"
  using next_one [of ls "Rec r" rs fs] by (simp add: jump_def replace_def splice'_def)

text \<open>One step of the loop at a void Record.\<close>

lemma postOrder_void_step:
  assumes v: "voidRecord isVoidNode r"
    and c: "after f = Some (Rec p)" and nt: "\<not> isTextRecord p"
  shows "walkPostOrderLoop isVoidNode identityMutate
           (Location (map Rec ls) (Rec r # map Rec rs) (fs @ [f])) trail s h
         = walkPostOrderLoop isVoidNode identityMutate
           (Location (map Rec (ls @ [r])) (map Rec rs) (fs @ [f])) trail s (Suc h)"
proof -
  let ?loc = "Location (map Rec ls) (Rec r # map Rec rs) (fs @ [f])"
  have rs: "records (lefts ?loc @ rights ?loc) = Some (ls @ r # rs)"
    by (simp add: records_append)
  have u: "up ?loc h = Inr (Location (lefts f)
           (Rec (Record h (name p) (text' p) (ls @ r # rs) False None None False None (style p))
              # drop 1 (rights f)) fs, Suc h)"
    by (rule up_element [OF _ c nt rs]) simp
  show ?thesis
    using v u
    by (subst walkPostOrderLoop.simps)
      (simp add: isAtEnd_def isVoid_Rec textRecords_map_Rec identityMutate_def replace_same
        after_def)
qed

text \<open>Descending into a Record that is not void.\<close>

lemma postOrder_down_step:
  assumes v: "\<not> voidRecord isVoidNode r"
  shows "walkPostOrderLoop isVoidNode identityMutate
           (Location ls (Rec r # rs) fs) trail s h
         = walkPostOrderLoop isVoidNode identityMutate
           (Location [] (map Rec (children r)) (fs @ [Location ls (Rec r # rs) fs]))
           (if fs = [] then trail else trail @ [length ls]) s h"
proof -
  have nt: "\<not> isTextRecord r" using v by (simp add: voidRecord_def isTextRecord_def)
  then have d: "down (Location ls (Rec r # rs) fs)
      = Inr (Location [] (map Rec (children r)) (fs @ [Location ls (Rec r # rs) fs]))"
    by (simp add: down_def after_def contents_def)
  show ?thesis
    using v d
    by (subst walkPostOrderLoop.simps) (simp add: isAtEnd_def isVoid_Rec isRoot_def Let_def)
qed

text \<open>Ascending from the end of the children of a Record below the root.\<close>

lemma postOrder_up_step:
  assumes nt: "\<not> isTextRecord r" and fs: "fs \<noteq> []"
  shows "walkPostOrderLoop isVoidNode identityMutate
           (Location (map Rec cs) [] (fs @ [Location (map Rec ls) (Rec r # map Rec rs) fs]))
           (trail @ [k]) s h
         = walkPostOrderLoop isVoidNode identityMutate
           (Location
              (map Rec (ls @ [Record h (name r) (text' r) cs False None None False None (style r)]))
              (map Rec rs) fs) trail s (Suc h)"
proof -
  let ?f = "Location (map Rec ls) (Rec r # map Rec rs) fs"
  let ?loc = "Location (map Rec cs) [] (fs @ [?f])"
  have rs: "records (lefts ?loc @ rights ?loc) = Some cs" by simp
  have c: "after ?f = Some (Rec r)" by (simp add: after_def)
  have u: "up ?loc h = Inr (Location (lefts ?f)
           (Rec (Record h (name r) (text' r) cs False None None False None (style r))
              # drop 1 (rights ?f)) fs, Suc h)"
    by (rule up_element [OF _ c nt rs]) simp
  show ?thesis
    using u fs
    by (subst walkPostOrderLoop.simps)
      (simp add: isAtEnd_def isRoot_def after_def identityMutate_def replace_same Let_def)
qed

lemma postOrder_siblings:
  assumes "after f = Some (Rec p)" "\<not> isTextRecord p"
  shows "\<exists>rs' h'. walkPostOrderLoop isVoidNode identityMutate
           (Location (map Rec ls) (map Rec rs) (fs @ [f])) trail s h
         = walkPostOrderLoop isVoidNode identityMutate
           (Location (map Rec (ls @ rs')) [] (fs @ [f])) trail s h'
         \<and> map shape rs' = map shape rs"
  using assms
proof (induction "sum_list (map weight rs)" arbitrary: rs ls fs f p trail h rule: less_induct)
  case less
  show ?case
  proof (cases rs)
    case Nil
    then show ?thesis by (intro exI [of _ "[]"] exI [of _ h]) simp
  next
    case (Cons r rest)
    have wr: "sum_list (map weight rest) < sum_list (map weight rs)"
      using Cons by (cases r) simp
    show ?thesis
    proof (cases "voidRecord isVoidNode r")
      case True
      from less.hyps [OF wr less.prems, of "ls @ [r]" fs trail "Suc h"]
      obtain rs' h' where
        st: "walkPostOrderLoop isVoidNode identityMutate
               (Location (map Rec (ls @ [r])) (map Rec rest) (fs @ [f])) trail s (Suc h)
             = walkPostOrderLoop isVoidNode identityMutate
               (Location (map Rec ((ls @ [r]) @ rs')) [] (fs @ [f])) trail s h'"
        and sh: "map shape rs' = map shape rest"
        by blast
      show ?thesis
        using postOrder_void_step [OF True less.prems, of ls rest fs trail s h] st sh Cons
        by (intro exI [of _ "r # rs'"] exI [of _ h']) simp
    next
      case False
      then have nt: "\<not> isTextRecord r" by (simp add: voidRecord_def isTextRecord_def)
      let ?f = "Location (map Rec ls) (Rec r # map Rec rest) (fs @ [f])"
      have wc: "sum_list (map weight (children r)) < sum_list (map weight rs)"
        using Cons weight_children [of r] by simp
      have cf: "after ?f = Some (Rec r)" by (simp add: after_def)
      from less.hyps [OF wc cf nt, of "[]" "fs @ [f]" "trail @ [length ls]" h]
      obtain cs' h1 where
        ch: "walkPostOrderLoop isVoidNode identityMutate
               (Location [] (map Rec (children r)) ((fs @ [f]) @ [?f])) (trail @ [length ls]) s h
             = walkPostOrderLoop isVoidNode identityMutate
               (Location (map Rec cs') [] ((fs @ [f]) @ [?f])) (trail @ [length ls]) s h1"
        and shc: "map shape cs' = map shape (children r)"
        by auto
      let ?r' = "Record h1 (name r) (text' r) cs' False None None False None (style r)"
      have shr: "shape ?r' = shape r"
        using shc by (simp add: shape_children [of r])
      from less.hyps [OF wr less.prems, of "ls @ [?r']" fs trail "Suc h1"]
      obtain rs' h' where
        st: "walkPostOrderLoop isVoidNode identityMutate
               (Location (map Rec (ls @ [?r'])) (map Rec rest) (fs @ [f])) trail s (Suc h1)
             = walkPostOrderLoop isVoidNode identityMutate
               (Location (map Rec ((ls @ [?r']) @ rs')) [] (fs @ [f])) trail s h'"
        and sh: "map shape rs' = map shape rest"
        by blast
      have "walkPostOrderLoop isVoidNode identityMutate
              (Location (map Rec ls) (map Rec rs) (fs @ [f])) trail s h
            = walkPostOrderLoop isVoidNode identityMutate
               (Location [] (map Rec (children r)) ((fs @ [f]) @ [?f])) (trail @ [length ls]) s h"
        using postOrder_down_step [OF False, of "map Rec ls" "map Rec rest" "fs @ [f]" trail s h] Cons
        by simp
      also note ch
      also have "walkPostOrderLoop isVoidNode identityMutate
               (Location (map Rec cs') [] ((fs @ [f]) @ [?f])) (trail @ [length ls]) s h1
            = walkPostOrderLoop isVoidNode identityMutate
               (Location (map Rec (ls @ [?r'])) (map Rec rest) (fs @ [f])) trail s (Suc h1)"
        by (rule postOrder_up_step [OF nt]) simp
      also note st
      finally show ?thesis
        using sh shr Cons by (intro exI [of _ "?r' # rs'"] exI [of _ h']) simp
    qed
  qed
qed


lemma postOrder_finish:
  assumes nt: "\<not> isTextRecord r"
  shows "walkPostOrderLoop isVoidNode identityMutate
           (Location (map Rec cs) [] [Location ls (Rec r # rs) []]) trail s h
         = Some (Inr (Location ls
              (Rec (Record h (name r) (text' r) cs False None None False None (style r)) # rs) [],
              s, Suc h))"
proof -
  let ?f = "Location ls (Rec r # rs) []"
  let ?loc = "Location (map Rec cs) [] ([] @ [?f])"
  have rs: "records (lefts ?loc @ rights ?loc) = Some cs" by simp
  have c: "after ?f = Some (Rec r)" by (simp add: after_def)
  have u: "up ?loc h = Inr (Location (lefts ?f)
           (Rec (Record h (name r) (text' r) cs False None None False None (style r))
              # drop 1 (rights ?f)) [], Suc h)"
    by (rule up_element [OF _ c nt rs]) simp
  show ?thesis
    using u by (subst walkPostOrderLoop.simps) (simp add: isAtEnd_def isRoot_def)
qed

lemma postOrder_from_root:
  assumes v: "\<not> voidRecord isVoidNode T"
  shows "\<exists>T' h'. walkPostOrderLoop isVoidNode identityMutate
             (Location ls (Rec T # rs) []) [] s h
           = Some (Inr (Location ls (Rec T' # rs) [], s, h'))
         \<and> shape T' = shape T"
proof -
  have nt: "\<not> isTextRecord T" using v by (simp add: voidRecord_def isTextRecord_def)
  let ?f = "Location ls (Rec T # rs) []"
  have cf: "after ?f = Some (Rec T)" by (simp add: after_def)
  from postOrder_siblings [OF cf nt, of isVoidNode "[]" "children T" "[]" "[]" s h]
  obtain cs' h1 where
    ch: "walkPostOrderLoop isVoidNode identityMutate
           (Location [] (map Rec (children T)) [?f]) [] s h
         = walkPostOrderLoop isVoidNode identityMutate
           (Location (map Rec cs') [] [?f]) [] s h1"
    and shc: "map shape cs' = map shape (children T)"
    by auto
  let ?T' = "Record h1 (name T) (text' T) cs' False None None False None (style T)"
  have "walkPostOrderLoop isVoidNode identityMutate ?f [] s h
        = walkPostOrderLoop isVoidNode identityMutate
            (Location [] (map Rec (children T)) [?f]) [] s h"
    using postOrder_down_step [OF v, of ls rs "[]" "[]" s h] by simp
  also note ch
  also have "walkPostOrderLoop isVoidNode identityMutate
           (Location (map Rec cs') [] [?f]) [] s h1
         = Some (Inr (Location ls (Rec ?T' # rs) [], s, Suc h1))"
    by (rule postOrder_finish [OF nt])
  finally show ?thesis
    using shc by (intro exI [of _ ?T'] exI [of _ "Suc h1"]) (simp add: shape_children [of T])
qed

text \<open>
  C5, as amended. Let the root of the Location be a Location without frames whose cursor
  is a Record \<open>T\<close> that is not void (not a Text record, not a marker, not a void node).
  Then \<open>walkPostOrder\<close> with the mutate function that returns its input as a singleton
  list returns a root Location that differs from the root it started from only in the
  Record at the cursor, and that Record is structurally equal to \<open>T\<close>.
\<close>

theorem postOrder_identity_walk:
  assumes "root loc h = Inr (Location ls (Rec T # rs) [], h0)"
    and "\<not> voidRecord isVoidNode T"
  shows "\<exists>T' h'. walkPostOrder isVoidNode identityMutate loc s h
           = Some (Inr (Location ls (Rec T' # rs) [], s, h'))
         \<and> shape T' = shape T"
  using postOrder_from_root [OF assms(2), of ls rs s h0] assms(1)
  by (simp add: walkPostOrder_def)

theorem postOrder_identity_walk_witness:
  "\<exists>T' h'. walkPostOrder (\<lambda>r. name r = ''BR'') identityMutate
       (Location [] [Rec 
          (Record 1 ''DIV'' []
        [Record 2 ''P'' []
           [Record 3 ''#text'' ''ab'' [] False None None False None []]
           False None None False None [],
         Record 4 ''BR'' [] [] False None None False None []]
        False None (None :: unit option) False None [])] []) () 10
       = Some (Inr (Location [] [Rec T'] [], (), h'))
     \<and> shape T'
       = Node ''DIV'' [] [Node ''P'' [] [Node ''#text'' ''ab'' []], Node ''BR'' [] []]"
proof -
  have r: "root (Location [] [Rec 
          (Record 1 ''DIV'' []
        [Record 2 ''P'' []
           [Record 3 ''#text'' ''ab'' [] False None None False None []]
           False None None False None [],
         Record 4 ''BR'' [] [] False None None False None []]
        False None (None :: unit option) False None [])] []) 10
      = Inr (Location [] (Rec (Record 1 ''DIV'' []
        [Record 2 ''P'' []
           [Record 3 ''#text'' ''ab'' [] False None None False None []]
           False None None False None [],
         Record 4 ''BR'' [] [] False None None False None []]
        False None (None :: unit option) False None []) # []) [], 10)"
    by (simp add: root_def)
  have v: "\<not> voidRecord (\<lambda>r. name r = ''BR'') (Record 1 ''DIV'' []
        [Record 2 ''P'' []
           [Record 3 ''#text'' ''ab'' [] False None None False None []]
           False None None False None [],
         Record 4 ''BR'' [] [] False None None False None []]
        False None (None :: unit option) False None [])"
    by (simp add: voidRecord_def isMarker_def)
  show ?thesis
    using postOrder_identity_walk [OF r v, of "()"] by simp
qed

text \<open>
  The restriction on the root is needed: on the tree that is a single Text record the
  walk reads \<open>up\<close> of the root Location, which has no frame, and raises.
\<close>

theorem postOrder_identity_walk_counterexample:
  "walkPostOrder isTextRecord identityMutate
     (fst (create (Node ''#text'' ''a'' []) 0) :: unit location) () 1
   = Some (Inl TypeError)"
  by (simp add: walkPostOrder_def create_def root_def walkPostOrderLoop.simps isAtEnd_def
      isVoid_def after_def up_def arrayLast_def)

section \<open>Searching a marker in pre-order\<close>

lemma ascend_at_root: "frames loc = [] \<Longrightarrow> ascend loc h = Inr (Return loc h)"
  by (subst ascend.simps) (simp add: isRoot_def)

lemma ascend_from_children:
  assumes nt: "\<not> isTextRecord r"
  shows "ascend (Location (map Rec cs) [] (fs @ [Location ls (Rec r # rs) fs0])) h
         = Inr (Resume (Location ls
              (Rec (Record h (name r) (text' r) cs False None None False None (style r)) # rs)
              fs) (Suc h))"
proof -
  let ?f = "Location ls (Rec r # rs) fs0"
  let ?loc = "Location (map Rec cs) [] (fs @ [?f])"
  have rs: "records (lefts ?loc @ rights ?loc) = Some cs" by simp
  have c: "after ?f = Some (Rec r)" by (simp add: after_def)
  have u: "up ?loc h = Inr (Location (lefts ?f)
           (Rec (Record h (name r) (text' r) cs False None None False None (style r))
              # drop 1 (rights ?f)) fs, Suc h)"
    by (rule up_element [OF _ c nt rs]) simp
  show ?thesis
    using u by (subst ascend.simps) (simp add: isRoot_def isAtEnd_def)
qed

lemma notAtMarker_Rec:
  "notAtMarker m (Location ls (Rec r # rs) fs) \<longleftrightarrow> \<not> (isMarker r \<and> r = m)"
  by (simp add: notAtMarker_def after_def)

lemma notAtMarker_end: "notAtMarker m (Location ls [] fs)"
  by (simp add: notAtMarker_def after_def)

lemma preOrder_stop:
  "isMarker m \<Longrightarrow>
   walkPreOrderLoop isVoidNode (notAtMarker m) (Location ls (Rec m # rs) fs) h
     = Some (Inr (Location ls (Rec m # rs) fs, h))"
  by (subst walkPreOrderLoop.simps) (simp add: notAtMarker_Rec)

lemma preOrder_void_step:
  assumes "\<not> (isMarker r \<and> r = m)" "voidRecord isVoidNode r"
  shows "walkPreOrderLoop isVoidNode (notAtMarker m) (Location ls (Rec r # rs) fs) h
         = walkPreOrderLoop isVoidNode (notAtMarker m) (Location (ls @ [Rec r]) rs fs) h"
  using assms
  by (subst walkPreOrderLoop.simps)
    (simp add: notAtMarker_Rec isAtEnd_def isVoid_Rec next_default)

lemma preOrder_down_step:
  assumes "\<not> voidRecord isVoidNode r"
  shows "walkPreOrderLoop isVoidNode (notAtMarker m) (Location ls (Rec r # rs) fs) h
         = walkPreOrderLoop isVoidNode (notAtMarker m)
             (Location [] (map Rec (children r)) (fs @ [Location ls (Rec r # rs) fs])) h"
proof -
  have nt: "\<not> isTextRecord r" and nm: "\<not> isMarker r"
    using assms by (simp_all add: voidRecord_def isTextRecord_def)
  then have d: "down (Location ls (Rec r # rs) fs)
      = Inr (Location [] (map Rec (children r)) (fs @ [Location ls (Rec r # rs) fs]))"
    by (simp add: down_def after_def contents_def)
  show ?thesis
    using assms d nm
    by (subst walkPreOrderLoop.simps) (simp add: notAtMarker_Rec isAtEnd_def isVoid_Rec)
qed

lemma preOrder_up_step:
  assumes nt: "\<not> isTextRecord r"
  shows "walkPreOrderLoop isVoidNode (notAtMarker m)
           (Location (map Rec cs) [] (fs @ [Location ls (Rec r # rs) fs0])) h
         = walkPreOrderLoop isVoidNode (notAtMarker m)
             (Location
                (ls @ [Rec (Record h (name r) (text' r) cs False None None False None (style r))])
                rs fs) (Suc h)"
  using ascend_from_children [OF nt, of cs fs ls rs fs0 h]
  by (subst walkPreOrderLoop.simps) (simp add: notAtMarker_end isAtEnd_def next_default)

lemma preOrder_end_at_root:
  "walkPreOrderLoop isVoidNode (notAtMarker m) (Location ls [] []) h
     = Some (Inr (Location ls [] [], h))"
  by (subst walkPreOrderLoop.simps) (simp add: notAtMarker_end isAtEnd_def ascend_at_root)

lemma visited_children:
  "visited isVoidNode r
     = (if voidRecord isVoidNode r then [] else stops isVoidNode (children r))"
  by (cases r) (simp add: stops_def)

lemma stops_Cons:
  "stops isVoidNode (r # rs)
     = r # (if voidRecord isVoidNode r then [] else stops isVoidNode (children r))
         @ stops isVoidNode rs"
  by (simp add: stops_def visited_children)

lemma preOrder_siblings:
  "(isMarker m \<and> m \<in> set (stops isVoidNode rs) \<longrightarrow>
      (\<exists>loc' h'. walkPreOrderLoop isVoidNode (notAtMarker m)
           (Location (map Rec ls) (map Rec rs) fs) h = Some (Inr (loc', h'))
         \<and> after loc' = Some (Rec m) \<and> length fs \<le> length (frames loc')))
   \<and> (\<not> (isMarker m \<and> m \<in> set (stops isVoidNode rs)) \<longrightarrow>
      (\<exists>ls' h'. walkPreOrderLoop isVoidNode (notAtMarker m)
           (Location (map Rec ls) (map Rec rs) fs) h
         = walkPreOrderLoop isVoidNode (notAtMarker m)
           (Location (map Rec ls') [] fs) h'))"
proof (induction "sum_list (map weight rs)" arbitrary: rs ls fs h rule: less_induct)
  case less
  show ?case
  proof (cases rs)
    case Nil
    then show ?thesis by (auto simp: stops_def)
  next
    case (Cons r rest)
    have wr: "sum_list (map weight rest) < sum_list (map weight rs)"
      using Cons by (cases r) simp
    have wc: "sum_list (map weight (children r)) < sum_list (map weight rs)"
      using Cons weight_children [of r] by simp
    let ?loc = "Location (map Rec ls) (map Rec rs) fs"
    show ?thesis
    proof (cases "isMarker r \<and> r = m")
      case True
      then have im: "isMarker m" and rm: "r = m" by auto
      have "walkPreOrderLoop isVoidNode (notAtMarker m) ?loc h = Some (Inr (?loc, h))"
        using preOrder_stop [OF im, of isVoidNode "map Rec ls" "map Rec rest" fs h] Cons rm
        by simp
      moreover have "after ?loc = Some (Rec m)" using True Cons by (simp add: after_def)
      moreover have "m \<in> set (stops isVoidNode rs)" using True Cons by (simp add: stops_Cons)
      ultimately show ?thesis using True by auto
    next
      case notm: False
      show ?thesis
      proof (cases "voidRecord isVoidNode r")
        case True
        have st: "walkPreOrderLoop isVoidNode (notAtMarker m) ?loc h
            = walkPreOrderLoop isVoidNode (notAtMarker m)
                (Location (map Rec (ls @ [r])) (map Rec rest) fs) h"
          using preOrder_void_step [OF notm True, of "map Rec ls" "map Rec rest" fs h] Cons by simp
        have mem: "isMarker m \<and> m \<in> set (stops isVoidNode rs)
            \<longleftrightarrow> isMarker m \<and> m \<in> set (stops isVoidNode rest)"
          using notm True Cons by (auto simp: stops_Cons)
        show ?thesis
          unfolding st mem by (rule less.hyps [OF wr])
      next
        case False
        then have nt: "\<not> isTextRecord r" by (simp add: voidRecord_def isTextRecord_def)
        let ?f = "Location (map Rec ls) (Rec r # map Rec rest) fs"
        have dn: "walkPreOrderLoop isVoidNode (notAtMarker m) ?loc h
            = walkPreOrderLoop isVoidNode (notAtMarker m)
                (Location (map Rec []) (map Rec (children r)) (fs @ [?f])) h"
          using preOrder_down_step [OF False, of m "map Rec ls" "map Rec rest" fs h] Cons by simp
        note ihc = less.hyps [OF wc, of "[]" "fs @ [?f]" h]
        show ?thesis
        proof (cases "isMarker m \<and> m \<in> set (stops isVoidNode (children r))")
          case True
          with ihc obtain loc' h' where
            "walkPreOrderLoop isVoidNode (notAtMarker m)
               (Location (map Rec []) (map Rec (children r)) (fs @ [?f])) h = Some (Inr (loc', h'))"
            "after loc' = Some (Rec m)" "length (fs @ [?f]) \<le> length (frames loc')"
            by blast
          moreover have "m \<in> set (stops isVoidNode rs)"
            using True False Cons by (simp add: stops_Cons)
          ultimately show ?thesis using dn True by auto
        next
          case miss: False
          with ihc obtain cs' h1 where
            ch: "walkPreOrderLoop isVoidNode (notAtMarker m)
               (Location (map Rec []) (map Rec (children r)) (fs @ [?f])) h
              = walkPreOrderLoop isVoidNode (notAtMarker m)
                  (Location (map Rec cs') [] (fs @ [?f])) h1"
            by blast
          let ?r' = "Record h1 (name r) (text' r) cs' False None None False None (style r)"
          have upw: "walkPreOrderLoop isVoidNode (notAtMarker m)
                  (Location (map Rec cs') [] (fs @ [?f])) h1
              = walkPreOrderLoop isVoidNode (notAtMarker m)
                  (Location (map Rec (ls @ [?r'])) (map Rec rest) fs) (Suc h1)"
            using preOrder_up_step [OF nt, of isVoidNode m cs' fs "map Rec ls" "map Rec rest" fs h1]
            by simp
          have st: "walkPreOrderLoop isVoidNode (notAtMarker m) ?loc h
              = walkPreOrderLoop isVoidNode (notAtMarker m)
                  (Location (map Rec (ls @ [?r'])) (map Rec rest) fs) (Suc h1)"
            using dn ch upw by simp
          have mem: "isMarker m \<and> m \<in> set (stops isVoidNode rs)
              \<longleftrightarrow> isMarker m \<and> m \<in> set (stops isVoidNode rest)"
            using notm miss False Cons by (auto simp: stops_Cons)
          show ?thesis
            unfolding st mem by (rule less.hyps [OF wr])
        qed
      qed
    qed
  qed
qed


text \<open>
  C6, as amended. Let the root of \<open>tree\<close> be the Location of a session root \<open>T\<close> (no
  frames, \<open>T\<close> alone at the cursor). The walk reaches the children of \<open>T\<close> and of
  every Record below it that is not void; it enters no Text record, marker or void node,
  and it does not stop at \<open>T\<close> itself. If the marker \<open>m\<close> is among the Records the walk
  reaches, \<open>gotoMarker\<close> returns a Location, not \<open>null\<close>, whose cursor is that very
  instance. In every other case (the marker is absent, it is \<open>T\<close> itself, or it lies
  only inside void Records) \<open>gotoMarker\<close> returns \<open>null\<close>; it raises no error and its
  walk ends.
\<close>

theorem gotoMarker_finds_marker:
  assumes rt: "root tree h = Inr (Location [] [Rec T] [], h0)"
  shows "(isMarker m \<and> m \<in> set (visited isVoidNode T) \<longrightarrow>
            (\<exists>loc h'. gotoMarker isVoidNode tree m h = Some (Inr (Some loc, h'))
               \<and> after loc = Some (Rec m)))
       \<and> (\<not> (isMarker m \<and> m \<in> set (visited isVoidNode T)) \<longrightarrow>
            (\<exists>h'. gotoMarker isVoidNode tree m h = Some (Inr (None, h'))))"
proof -
  let ?top = "Location [] [Rec T] []"
  let ?walk = "walkPreOrderLoop isVoidNode (notAtMarker m)"
  have g: "gotoMarker isVoidNode tree m h
      = (case ?walk ?top h0 of
           None \<Rightarrow> None
         | Some (Inl e) \<Rightarrow> Some (Inl e)
         | Some (Inr (loc, h1)) \<Rightarrow> Some (Inr (if isRoot loc then None else Some loc, h1)))"
    using rt by (simp add: gotoMarker_def walkPreOrderWhile_def root_no_frames)
  show ?thesis
  proof (cases "voidRecord isVoidNode T")
    case True
    then have vis: "visited isVoidNode T = []" by (simp add: visited_children)
    have "\<exists>loc. ?walk ?top h0 = Some (Inr (loc, h0)) \<and> frames loc = []"
    proof (cases "isMarker T \<and> T = m")
      case True
      then have im: "isMarker m" and tm: "T = m" by auto
      show ?thesis
        using preOrder_stop [OF im, of isVoidNode "[]" "[]" "[]" h0] tm by simp
    next
      case False
      have "?walk ?top h0 = ?walk (Location ([] @ [Rec T]) [] []) h0"
        by (rule preOrder_void_step [OF False True])
      then show ?thesis by (simp add: preOrder_end_at_root)
    qed
    then show ?thesis using g vis by (auto simp: isRoot_def)
  next
    case False
    then have nt: "\<not> isTextRecord T" by (simp add: voidRecord_def isTextRecord_def)
    have vis: "visited isVoidNode T = stops isVoidNode (children T)"
      using False by (simp add: visited_children)
    have dn: "?walk ?top h0 = ?walk (Location (map Rec []) (map Rec (children T)) [?top]) h0"
      using preOrder_down_step [OF False, of m "[]" "[]" "[]" h0] by simp
    note sib = preOrder_siblings [of m isVoidNode "children T" "[]" "[?top]" h0]
    show ?thesis
    proof (cases "isMarker m \<and> m \<in> set (stops isVoidNode (children T))")
      case True
      with sib obtain loc' h' where
        "?walk (Location (map Rec []) (map Rec (children T)) [?top]) h0 = Some (Inr (loc', h'))"
        "after loc' = Some (Rec m)" "length [?top] \<le> length (frames loc')"
        by blast
      then show ?thesis using g dn vis True by (auto simp: isRoot_def)
    next
      case miss: False
      with sib obtain cs' h1 where
        "?walk (Location (map Rec []) (map Rec (children T)) [?top]) h0
           = ?walk (Location (map Rec cs') [] ([] @ [?top])) h1"
        by auto
      also have "\<dots> = ?walk (Location ([] @ [Rec (Record h1 (name T) (text' T) cs'
                    False None None False None (style T))]) [] []) (Suc h1)"
        by (rule preOrder_up_step [OF nt])
      also have "\<dots> = Some (Inr (Location ([] @ [Rec (Record h1 (name T) (text' T) cs'
                    False None None False None (style T))]) [] [], Suc h1))"
        by (rule preOrder_end_at_root)
      finally show ?thesis using g dn vis miss by (auto simp: isRoot_def)
    qed
  qed
qed

theorem gotoMarker_finds_marker_witness:
  "(\<exists>loc h'. gotoMarker (\<lambda>r. name r = ''BR'') (Location [] [Rec (Record 1 ''DIV'' []
        [Record 2 ''P'' []
           [Record 3 ''#text'' ''ab'' [] False None None False None [],
            Record 5 ''CODE'' []
              [Record 6 ''#text'' ''1'' [] False None None False None []]
              True (Some ''start'') (Some ()) False None []]
           False None None False None [],
         Record 4 ''BR'' [] [] False None None False None []]
        False None None False None [])] [] :: unit location) (Record 5 ''CODE'' []
              [Record 6 ''#text'' ''1'' [] False None None False None []]
              True (Some ''start'') (Some ()) False None []) 20
        = Some (Inr (Some loc, h'))
      \<and> after loc = Some (Rec (Record 5 ''CODE'' []
              [Record 6 ''#text'' ''1'' [] False None None False None []]
              True (Some ''start'') (Some ()) False None [])))
   \<and> (\<exists>h'. gotoMarker (\<lambda>r. name r = ''BR'') (Location [] [Rec (Record 1 ''DIV'' []
        [Record 2 ''P'' []
           [Record 3 ''#text'' ''ab'' [] False None None False None [],
            Record 5 ''CODE'' []
              [Record 6 ''#text'' ''1'' [] False None None False None []]
              True (Some ''start'') (Some ()) False None []]
           False None None False None [],
         Record 4 ''BR'' [] [] False None None False None []]
        False None None False None [])] []) (Record 7 ''CODE'' []
              [Record 8 ''#text'' ''2'' [] False None None False None []]
              True (Some ''end'') (Some ()) False None []) 20
        = Some (Inr (None, h')))"
proof -
  have rt: "root (Location [] [Rec (Record 1 ''DIV'' []
        [Record 2 ''P'' []
           [Record 3 ''#text'' ''ab'' [] False None None False None [],
            Record 5 ''CODE'' []
              [Record 6 ''#text'' ''1'' [] False None None False None []]
              True (Some ''start'') (Some ()) False None []]
           False None None False None [],
         Record 4 ''BR'' [] [] False None None False None []]
        False None None False None [])] []) 20 = Inr (Location [] [Rec (Record 1 ''DIV'' []
        [Record 2 ''P'' []
           [Record 3 ''#text'' ''ab'' [] False None None False None [],
            Record 5 ''CODE'' []
              [Record 6 ''#text'' ''1'' [] False None None False None []]
              True (Some ''start'') (Some ()) False None []]
           False None None False None [],
         Record 4 ''BR'' [] [] False None None False None []]
        False None None False None [])] [], 20)"
    by (simp add: root_def)
  have hit: "isMarker (Record 5 ''CODE'' []
              [Record 6 ''#text'' ''1'' [] False None None False None []]
              True (Some ''start'') (Some ()) False None []) \<and> (Record 5 ''CODE'' []
              [Record 6 ''#text'' ''1'' [] False None None False None []]
              True (Some ''start'') (Some ()) False None []) \<in> set (visited (\<lambda>r. name r = ''BR'') (Record 1 ''DIV'' []
        [Record 2 ''P'' []
           [Record 3 ''#text'' ''ab'' [] False None None False None [],
            Record 5 ''CODE'' []
              [Record 6 ''#text'' ''1'' [] False None None False None []]
              True (Some ''start'') (Some ()) False None []]
           False None None False None [],
         Record 4 ''BR'' [] [] False None None False None []]
        False None None False None []))"
    by (simp add: voidRecord_def isMarker_def)
  have miss: "\<not> (isMarker ((Record 7 ''CODE'' []
              [Record 8 ''#text'' ''2'' [] False None None False None []]
              True (Some ''end'') (Some ()) False None []))
      \<and> (Record 7 ''CODE'' []
              [Record 8 ''#text'' ''2'' [] False None None False None []]
              True (Some ''end'') (Some ()) False None []) \<in> set (visited (\<lambda>r. name r = ''BR'') (Record 1 ''DIV'' []
        [Record 2 ''P'' []
           [Record 3 ''#text'' ''ab'' [] False None None False None [],
            Record 5 ''CODE'' []
              [Record 6 ''#text'' ''1'' [] False None None False None []]
              True (Some ''start'') (Some ()) False None []]
           False None None False None [],
         Record 4 ''BR'' [] [] False None None False None []]
        False None None False None [])))"
    by (simp add: voidRecord_def isMarker_def)
  show ?thesis
    using gotoMarker_finds_marker [OF rt, of "Record 5 ''CODE'' []
              [Record 6 ''#text'' ''1'' [] False None None False None []]
              True (Some ''start'') (Some ()) False None []" "\<lambda>r. name r = ''BR''", THEN conjunct1, THEN mp, OF hit]
      gotoMarker_finds_marker [OF rt, of "Record 7 ''CODE'' []
              [Record 8 ''#text'' ''2'' [] False None None False None []]
              True (Some ''end'') (Some ()) False None []" "\<lambda>r. name r = ''BR''", THEN conjunct2, THEN mp, OF miss]
    by simp
qed

lemma visited_descendants: "set (visited isVoidNode r) \<subseteq> set (descendants r)"
proof (induction r rule: descendants.induct)
  case (1 i n t cs m k b f orig st)
  then show ?case by (auto simp del: voidRecord_def)
qed

text \<open>
  The restriction to the Records the walk reaches is needed, and the session driver itself
  builds a tree outside it: for a boundary whose path leads into a \<open>br\<close> element,
  \<open>zipper\<close> places the marker inside that element.
\<close>

lemma zipper_marker_in_void_example:
  "(case zipper (\<lambda>e. []) (\<lambda>e b. b) (Node ''DIV'' [] [Node ''BR'' [] []])
           [(''start'', [0, 0])] 0 0 of
      Inl e \<Rightarrow> False
    | Inr ((tree, markers), markerCount, h) \<Rightarrow>
        tree = (Location [] [Rec (Record 5 ''DIV'' []
      [Record 4 ''BR'' []
         [Record 2 ''CODE'' []
           [Record 3 ''#text'' ''1'' [] False None None False None []]
           True (Some ''start'') (Some [0, 0]) False None []]
         False None None False None []]
      False None None False None [])] [])
        \<and> markers ''start'' = Some (Some (Record 2 ''CODE'' []
        [Record 3 ''#text'' ''1'' [] False None None False None []]
        True (Some ''start'') (Some [0, 0]) False None []))
        \<and> markerCount = 1 \<and> h = 6)"
  by code_simp

text \<open>
  On that tree the walk passes over the \<open>br\<close> element without entering it, and
  \<open>gotoMarker\<close> returns \<open>null\<close> although the marker is in the tree.
\<close>

theorem gotoMarker_finds_marker_counterexample:
  "isMarker (Record 2 ''CODE'' []
        [Record 3 ''#text'' ''1'' [] False None None False None []]
        True (Some ''start'') (Some [0, 0]) False None [])
   \<and> (Record 2 ''CODE'' []
        [Record 3 ''#text'' ''1'' [] False None None False None []]
        True (Some ''start'') (Some [0, 0]) False None [])
       \<in> set (descendants (Record 5 ''DIV'' []
      [Record 4 ''BR'' []
         [Record 2 ''CODE'' []
           [Record 3 ''#text'' ''1'' [] False None None False None []]
           True (Some ''start'') (Some [0, 0]) False None []]
         False None None False None []]
      False None None False None []))
   \<and> gotoMarker brIsVoid (Location [] [Rec (Record 5 ''DIV'' []
      [Record 4 ''BR'' []
         [Record 2 ''CODE'' []
           [Record 3 ''#text'' ''1'' [] False None None False None []]
           True (Some ''start'') (Some [0, 0]) False None []]
         False None None False None []]
      False None None False None [])] [])
        (Record 2 ''CODE'' []
        [Record 3 ''#text'' ''1'' [] False None None False None []]
        True (Some ''start'') (Some [0, 0]) False None []) 6
       = Some (Inr (None, 7))"
  by (simp add: isMarker_def gotoMarker_def walkPreOrderWhile_def root_def
      walkPreOrderLoop.simps notAtMarker_def after_def isAtEnd_def isVoid_def brIsVoid_def
      down_def contents_def isTextRecord_def next'_def slice_def sliceFrom_def
      relativeIndex_def ascend.simps isRoot_def up_def arrayLast_def setContents_def
      setChildren_def Let_def)

end
